(* ===== verification/Carolina_Prelude.thy ===== *)
theory Carolina_Prelude
  imports Main "HOL-Library.Word" "HOL-Library.List_Lexorder"
begin

text \<open>
  Shared vocabulary of the development: Rust's machine integers as words, the error codes of
  \<^verbatim>\<open>src/crates/carolina-core/src/error.rs\<close>, results as sums with \<open>Inl\<close> for \<open>Err\<close> and \<open>Inr\<close> for
  \<open>Ok\<close>, the \<open>?\<close> operator as \<open>rbind\<close>, and big- and little-endian byte images of integers.
  Error messages are diagnostics only and are not modelled; the code of the error is.
\<close>

section \<open>Machine integers and byte strings\<close>

type_synonym u8 = "8 word"
type_synonym u16 = "16 word"
type_synonym u32 = "32 word"
type_synonym u64 = "64 word"
type_synonym i64 = "64 word"
type_synonym bytes = "8 word list"

named_theorems codec_simps \<open>unfolding rules of the encoders and decoders\<close>
named_theorems codec_valid \<open>decoders return valid values\<close>
named_theorems step_defs \<open>definitions of the transition steps of the state machines\<close>

section \<open>Errors and results\<close>

text \<open>\<open>ErrorCode\<close> of error.rs, in the order of the source.\<close>

datatype (plugins only: code size) error_code =
    ParseError | DuplicateIdentity | TypeMismatch | MissingRecord | NumericOverflow
  | InvalidDecimal | UnknownNormalizer | UnsupportedEffect | UnboundedFootprint
  | UnevaluableInvariant | InvalidContract | UnsupportedIrVersion | NonCanonicalEncoding
  | ResourceLimit | IdentityMismatch | UnsupportedSessionScope
  | InvalidIr | IncompleteContract | InvalidSequentialContract | UnenforceableInvariant
  | IncompleteFootprint | UnsupportedComposition | UnsatisfiableDurability
  | UnmetObservationContract | MissingRuntimeCapability | InvalidEvidence | AnalysisLimit
  | NoSafePlan
  | Io | DiskFull | Corruption | ChecksumMismatch | UnsupportedFormat | InvalidManifest
  | KeyTooLarge | ValueTooLarge | BatchTooLarge | Conflict | StaleEpoch | StalePlan
  | StaleSchema | TxnAlreadyCommitted | TxnAlreadyAborted | TxnInDoubt | ReadOnly | NotReady
  | RequestIdentityMismatch | IdentityConflict | IdentityExpired | ResultExpired
  | OutcomeUnknown | AuthorityUnavailable | MissingDependency | InvariantRejected
  | PreconditionRejected | PostconditionRejected | ArithmeticError | Unavailable
  | ProtocolError | UnsupportedCodec | IncompatiblePeer | NamespaceRetired | Internal

type_synonym 'a core_result = "error_code + 'a"

text \<open>
  Ways a call ends without a value: an error value, a panic (a failed assertion or index), or a
  loop that never returns.
\<close>

datatype exc = Fail error_code | Panic | NoReturn

text \<open>The \<open>?\<close> operator: an error ends the enclosing function with that error.\<close>

definition rbind :: "'e + 'a \<Rightarrow> ('a \<Rightarrow> 'e + 'b) \<Rightarrow> 'e + 'b" where
  "rbind m f = (case m of Inl e \<Rightarrow> Inl e | Inr x \<Rightarrow> f x)"

lemma rbind_simps [simp]:
  "rbind (Inl e) f = Inl e"
  "rbind (Inr x) f = f x"
  by (simp_all add: rbind_def)

lemma rbind_eq_Inr_iff: "rbind m f = Inr y \<longleftrightarrow> (\<exists>x. m = Inr x \<and> f x = Inr y)"
  by (auto simp: rbind_def split: sum.splits)

lemma rbind_eq_Inl_iff:
  "rbind m f = Inl e \<longleftrightarrow> m = Inl e \<or> (\<exists>x. m = Inr x \<and> f x = Inl e)"
  by (auto simp: rbind_def split: sum.splits)

lemma rbind_cong [fundef_cong]:
  "m = m' \<Longrightarrow> (\<And>x. m' = Inr x \<Longrightarrow> f x = g x) \<Longrightarrow> rbind m f = rbind m' g"
  by (auto simp: rbind_def split: sum.splits)

text \<open>\<open>if !cond { return Err(code) }\<close>.\<close>

definition ensure :: "bool \<Rightarrow> 'e \<Rightarrow> 'e + unit" where
  "ensure b e = (if b then Inr () else Inl e)"

lemma ensure_simps [simp]:
  "ensure True e = Inr ()"
  "ensure False e = Inl e"
  "ensure b e = Inr u \<longleftrightarrow> b"
  by (simp_all add: ensure_def)

text \<open>\<open>iter().map(f).collect::<CoreResult<Vec<_>>>()\<close>: the first error wins.\<close>

fun rmapM :: "('a \<Rightarrow> 'e + 'b) \<Rightarrow> 'a list \<Rightarrow> 'e + 'b list" where
  "rmapM f [] = Inr []"
| "rmapM f (x # xs) = rbind (f x) (\<lambda>y. rbind (rmapM f xs) (\<lambda>ys. Inr (y # ys)))"

lemma rmapM_map_Inr [simp]:
  "(\<And>x. x \<in> set xs \<Longrightarrow> f (g x) = Inr (h x)) \<Longrightarrow> rmapM f (map g xs) = Inr (map h xs)"
  by (induction xs) simp_all

lemma rmapM_cong [fundef_cong]:
  "xs = ys \<Longrightarrow> (\<And>x. x \<in> set ys \<Longrightarrow> f x = g x) \<Longrightarrow> rmapM f xs = rmapM g ys"
  by (induction ys arbitrary: xs) auto

lemma rmapM_eq_Inr_iff: "rmapM f xs = Inr ys \<longleftrightarrow> list_all2 (\<lambda>x y. f x = Inr y) xs ys"
  by (induction xs arbitrary: ys) (auto simp: rbind_eq_Inr_iff list_all2_Cons1)

section \<open>Big- and little-endian images\<close>

text \<open>
  \<open>be_bytes n v\<close> is \<open>v.to_be_bytes()\<close> of an unsigned integer of \<open>n\<close> bytes, \<open>be_value\<close> is
  \<open>from_be_bytes\<close>; \<open>le_bytes\<close> and \<open>le_value\<close> are the little-endian images.
\<close>

fun be_bytes :: "nat \<Rightarrow> nat \<Rightarrow> bytes" where
  "be_bytes 0 v = []"
| "be_bytes (Suc n) v = be_bytes n (v div 256) @ [of_nat (v mod 256)]"

definition be_value :: "bytes \<Rightarrow> nat" where
  "be_value bs = foldl (\<lambda>a b. a * 256 + unat b) 0 bs"

definition le_bytes :: "nat \<Rightarrow> nat \<Rightarrow> bytes" where
  "le_bytes n v = rev (be_bytes n v)"

definition le_value :: "bytes \<Rightarrow> nat" where
  "le_value bs = be_value (rev bs)"

lemma unat_u8_mod [simp]: "unat (of_nat (v mod 256) :: u8) = v mod 256"
  by (simp add: unat_of_nat)

lemma length_be_bytes [simp]: "length (be_bytes n v) = n"
  by (induction n arbitrary: v) simp_all

lemma length_le_bytes [simp]: "length (le_bytes n v) = n"
  by (simp add: le_bytes_def)

lemma be_value_snoc: "be_value (bs @ [b]) = be_value bs * 256 + unat b"
  by (simp add: be_value_def)

lemma be_value_be_bytes: "v < 256 ^ n \<Longrightarrow> be_value (be_bytes n v) = v"
proof (induction n arbitrary: v)
  case 0
  then show ?case by (simp add: be_value_def)
next
  case (Suc n)
  then have "v div 256 < 256 ^ n" by (simp add: less_mult_imp_div_less mult.commute)
  then have "be_value (be_bytes n (v div 256)) = v div 256" by (rule Suc.IH)
  then show ?case by (simp add: be_value_snoc)
qed

lemma le_value_le_bytes: "v < 256 ^ n \<Longrightarrow> le_value (le_bytes n v) = v"
  by (simp add: le_value_def le_bytes_def be_value_be_bytes)

lemma be_value_bound: "be_value bs < 256 ^ length bs"
proof (induction bs rule: rev_induct)
  case Nil
  then show ?case by (simp add: be_value_def)
next
  case (snoc b bs)
  have "unat b < 256" using unsigned_less [of b] by simp
  with snoc show ?case by (simp add: be_value_snoc)
qed

lemma be_bytes_be_value: "be_bytes (length bs) (be_value bs) = bs"
proof (induction bs rule: rev_induct)
  case Nil
  then show ?case by (simp add: be_value_def)
next
  case (snoc b bs)
  have "unat b < 256" using unsigned_less [of b] by simp
  then have "(be_value bs * 256 + unat b) div 256 = be_value bs"
    and "(be_value bs * 256 + unat b) mod 256 = unat b" by simp_all
  with snoc show ?case by (simp add: be_value_snoc)
qed

text \<open>Fixed widths on words.\<close>

definition u16_le :: "u16 \<Rightarrow> bytes" where "u16_le w = le_bytes 2 (unat w)"
definition u32_le :: "u32 \<Rightarrow> bytes" where "u32_le w = le_bytes 4 (unat w)"
definition u64_le :: "u64 \<Rightarrow> bytes" where "u64_le w = le_bytes 8 (unat w)"
definition u16_be :: "u16 \<Rightarrow> bytes" where "u16_be w = be_bytes 2 (unat w)"
definition u32_be :: "u32 \<Rightarrow> bytes" where "u32_be w = be_bytes 4 (unat w)"
definition u64_be :: "u64 \<Rightarrow> bytes" where "u64_be w = be_bytes 8 (unat w)"

lemma length_word_bytes [simp]:
  "length (u16_le a) = 2" "length (u32_le b) = 4" "length (u64_le c) = 8"
  "length (u16_be a) = 2" "length (u32_be b) = 4" "length (u64_be c) = 8"
  by (simp_all add: u16_le_def u32_le_def u64_le_def u16_be_def u32_be_def u64_be_def)

lemma unat_bounds:
  "unat (a :: u16) < 256 ^ 2" "unat (b :: u32) < 256 ^ 4" "unat (c :: u64) < 256 ^ 8"
  using unsigned_less [of a] unsigned_less [of b] unsigned_less [of c] by simp_all

lemma word_bytes_value [simp]:
  "le_value (u16_le a) = unat a" "le_value (u32_le b) = unat b" "le_value (u64_le c) = unat c"
  "be_value (u16_be a) = unat a" "be_value (u32_be b) = unat b" "be_value (u64_be c) = unat c"
  by (simp_all only: u16_le_def u32_le_def u64_le_def u16_be_def u32_be_def u64_be_def
      unat_bounds [THEN le_value_le_bytes] unat_bounds [THEN be_value_be_bytes])

section \<open>Lists\<close>

lemma nth_list_update_cases: "i < length xs \<Longrightarrow> xs[i := v] ! j = (if i = j then v else xs ! j)"
  by (cases "i = j") simp_all

lemma sum_list_map_update:
  fixes f :: "'a \<Rightarrow> nat"
  assumes "i < length xs"
  shows "sum_list (map f (xs[i := v])) + f (xs ! i) = sum_list (map f xs) + f v"
  using assms
proof (induction xs arbitrary: i)
  case Nil
  then show ?case by simp
next
  case (Cons x xs)
  then show ?case by (cases i) (force simp: algebra_simps)+
qed

lemma list_all_update:
  "list_all P xs \<Longrightarrow> P v \<Longrightarrow> list_all P (xs[i := v])"
  by (auto simp: list_all_iff dest: set_update_subset_insert [THEN subsetD])

lemma list_all_nth: "list_all P xs \<Longrightarrow> i < length xs \<Longrightarrow> P (xs ! i)"
  by (simp add: list_all_length)

section \<open>Word successors\<close>

lemma unat_inc:
  fixes w :: "'a :: len word"
  assumes "unat w < 2 ^ LENGTH('a) - 1"
  shows "unat (w + 1) = unat w + 1"
  using assms by (simp add: unat_word_ariths)

lemma unat_inc_less:
  fixes w v :: "'a :: len word"
  assumes "w < v"
  shows "unat (w + 1) = unat w + 1"
proof (rule unat_inc)
  have "unat w < unat v" using assms by (simp add: word_less_nat_alt)
  moreover have "unat v < 2 ^ LENGTH('a)" by (rule unsigned_less)
  ultimately show "unat w < 2 ^ LENGTH('a) - 1" by linarith
qed

section \<open>Lexicographic order of byte strings\<close>

lemma append_less_append:
  "length xs = length ys \<Longrightarrow> xs @ r < ys @ s \<longleftrightarrow> xs < ys \<or> xs = ys \<and> r < (s :: 'a :: linorder list)"
proof (induction xs ys rule: list_induct2)
  case (Cons x xs y ys)
  then show ?case unfolding append_Cons Cons_less_Cons list.inject by blast
qed simp

lemma be_bytes_inject: "u < 256 ^ n \<Longrightarrow> v < 256 ^ n \<Longrightarrow> be_bytes n u = be_bytes n v \<longleftrightarrow> u = v"
  by (auto simp: be_value_be_bytes dest: arg_cong [where f = be_value])

lemma less_div_mod: "u < v \<longleftrightarrow> u div 256 < v div 256 \<or> u div 256 = v div 256 \<and> u mod 256 < v mod (256 :: nat)"
proof -
  have "u = u div 256 * 256 + u mod 256" "v = v div 256 * 256 + v mod 256"
    "u mod 256 < 256" "v mod 256 < 256" by simp_all
  then show ?thesis
    by (cases "u div 256" "v div 256" rule: linorder_cases) linarith+
qed

lemma be_bytes_less: "u < 256 ^ n \<Longrightarrow> v < 256 ^ n \<Longrightarrow> be_bytes n u < be_bytes n v \<longleftrightarrow> u < v"
proof (induction n arbitrary: u v)
  case (Suc n)
  have u: "u div 256 < 256 ^ n" using Suc.prems(1) by (simp add: less_mult_imp_div_less mult.commute)
  have v: "v div 256 < 256 ^ n" using Suc.prems(2) by (simp add: less_mult_imp_div_less mult.commute)
  have "[of_nat (u mod 256) :: u8] < [of_nat (v mod 256)] \<longleftrightarrow> u mod 256 < v mod 256"
    by (simp add: word_less_nat_alt)
  with Suc.IH [OF u v] be_bytes_inject [OF u v] show ?case
    unfolding be_bytes.simps less_div_mod [of u v] by (subst append_less_append) simp_all
qed simp

unbundle bit_operations_syntax

text \<open>Adding the weight of the sign bit turns the signed order into the unsigned one.\<close>

lemma push_bit_top_twice:
  "push_bit (LENGTH('a) - 1) 1 + push_bit (LENGTH('a) - 1) 1 = (0 :: 'a :: len word)"
proof -
  have "push_bit (LENGTH('a) - 1) 1 + push_bit (LENGTH('a) - 1) 1 = (2 ^ LENGTH('a) :: 'a word)"
    by (simp add: push_bit_eq_mult flip: mult_2 power_Suc)
  then show ?thesis by simp
qed

lemma minus_top:
  "w - push_bit (LENGTH('a) - 1) 1 = w + push_bit (LENGTH('a) - 1) (1 :: 'a :: len word)"
  unfolding diff_eq_eq add.assoc push_bit_top_twice by simp

lemma sign_flip:
  fixes w :: "'a :: len word"
  shows "w XOR push_bit (LENGTH('a) - 1) 1 = w + push_bit (LENGTH('a) - 1) 1"
proof (cases "bit w (LENGTH('a) - 1)")
  case True
  then have "w XOR push_bit (LENGTH('a) - 1) 1 = w - push_bit (LENGTH('a) - 1) 1"
    unfolding flip_bit_eq_xor [symmetric] by (simp add: flip_bit_eq_if unset_bit_eq push_bit_eq_mult)
  also have "\<dots> = w + push_bit (LENGTH('a) - 1) 1"
    by (rule minus_top)
  finally show ?thesis .
next
  case False
  then show ?thesis
    unfolding flip_bit_eq_xor [symmetric] by (simp add: flip_bit_eq_if set_bit_eq push_bit_eq_mult)
qed

lemma uint_top: "uint (push_bit (LENGTH('a) - 1) 1 :: 'a :: len word) = 2 ^ (LENGTH('a) - 1)"
  by (simp only: unsigned_push_bit_eq) (simp add: push_bit_eq_mult take_bit_eq_mod)

lemma sint_less_flip:
  fixes v w :: "'a :: len word"
  shows "sint v < sint w \<longleftrightarrow>
    v XOR push_bit (LENGTH('a) - 1) 1 < w XOR push_bit (LENGTH('a) - 1) 1"
proof -
  have "sint u + 2 ^ (LENGTH('a) - 1) = uint (u + push_bit (LENGTH('a) - 1) 1)" for u :: "'a word"
    unfolding uint_word_ariths(1) uint_top
    by (simp add: sint_uint signed_take_bit_eq_take_bit_shift take_bit_eq_mod)
  then show ?thesis unfolding sign_flip word_less_def by (metis add_less_cancel_right)
qed

end
