(* ===== verification/Explore.thy ===== *)
theory Explore
  imports Carolina_Prelude
begin

text \<open>
  The explicit-state explorer of \<^verbatim>\<open>src/crates/carolina-models/src/lib.rs\<close>: a breadth-first
  search that records states, parents and depths, checks the invariant in every new state and
  stops at the first violation or at the state budget. The search loop and the walk that rebuilds
  a trace from the parent links are partial functions into \<open>option\<close>, with a proof that they
  return. The locale \<open>checked_model\<close> is what a model must supply for its invariant to hold in
  every reachable state; the formal models interpret it.
\<close>

section \<open>Reachability\<close>

inductive reachable :: "('s \<Rightarrow> ('l \<times> 's) list) \<Rightarrow> 's \<Rightarrow> 's \<Rightarrow> bool" for nxt init where
  reachable_init: "reachable nxt init init"
| reachable_step: "reachable nxt init s \<Longrightarrow> (l, t) \<in> set (nxt s) \<Longrightarrow> reachable nxt init t"

inductive path :: "('s \<Rightarrow> ('l \<times> 's) list) \<Rightarrow> 's \<Rightarrow> 'l list \<Rightarrow> 's \<Rightarrow> bool" for nxt init where
  path_nil: "path nxt init [] init"
| path_snoc: "path nxt init ls s \<Longrightarrow> (l, t) \<in> set (nxt s) \<Longrightarrow> path nxt init (ls @ [l]) t"

lemma path_reachable: "path nxt init ls s \<Longrightarrow> reachable nxt init s"
  by (induction rule: path.induct) (auto intro: reachable.intros)

lemma reachable_path: "reachable nxt init s \<Longrightarrow> \<exists>ls. path nxt init ls s"
  by (induction rule: reachable.induct) (auto intro: path.intros)

text \<open>
  A step guarded by a condition of the source, \<open>if b { out.push(x) }\<close>, and the loop
  \<open>for i in 0..n\<close> over such steps.
\<close>

definition guarded :: "bool \<Rightarrow> 'a \<Rightarrow> 'a list" where
  "guarded b x = (if b then [x] else [])"

lemma mem_guarded [simp]: "y \<in> set (guarded b x) \<longleftrightarrow> b \<and> y = x"
  by (cases b) (simp_all add: guarded_def)

definition for_each :: "nat \<Rightarrow> (nat \<Rightarrow> 'a list) \<Rightarrow> 'a list" where
  "for_each n f = concat (map f [0..<n])"

lemma set_for_each: "x \<in> set (for_each n f) \<longleftrightarrow> (\<exists>i < n. x \<in> set (f i))"
  by (auto simp: for_each_def)

section \<open>Reports\<close>

text \<open>
  The strings of the source that only print values are those values here: a step label, the
  bounds of a run, the message of a violation, the description of the final state.
\<close>

record ('l, 'd) trace =
  steps :: "'l list"
  final_state :: 'd

record ('b, 'l, 'd, 'v) model_report =
  rep_model :: string
  rep_bounds :: 'b
  rep_states :: nat
  rep_transitions :: nat
  rep_max_depth :: nat
  rep_truncated :: bool
  rep_violation :: "('v \<times> ('l, 'd) trace) option"

definition passed :: "('b, 'l, 'd, 'v) model_report \<Rightarrow> bool" where
  "passed r \<longleftrightarrow> rep_violation r = None \<and> \<not> rep_truncated r"

section \<open>The search\<close>

record ('s, 'l) search =
  sr_states :: "'s list"
  sr_index :: "'s \<Rightarrow> nat option"
  sr_parent :: "(nat \<times> 'l) option list"
  sr_depth :: "nat list"
  sr_queue :: "nat list"
  sr_transitions :: nat
  sr_max_depth :: nat
  sr_truncated :: bool

definition search_init :: "'s \<Rightarrow> ('s, 'l) search" where
  "search_init init = \<lparr>sr_states = [init], sr_index = [init \<mapsto> 0], sr_parent = [None],
     sr_depth = [0], sr_queue = [0], sr_transitions = 0, sr_max_depth = 0,
     sr_truncated = False\<rparr>"

text \<open>
  \<open>trace_of\<close>: follow the parent links from state \<open>i\<close> back to the initial state, collecting the
  labels in reverse order.
\<close>

partial_function (option) trace_walk ::
  "(nat \<times> 'l) option list \<Rightarrow> nat \<Rightarrow> 'l list \<Rightarrow> 'l list option" where
  "trace_walk parent cur acc =
     (case parent ! cur of
        None \<Rightarrow> Some acc
      | Some (p, label) \<Rightarrow> trace_walk parent p (acc @ [label]))"

definition trace_of ::
  "('s \<Rightarrow> 'd) \<Rightarrow> nat \<Rightarrow> (nat \<times> 'l) option list \<Rightarrow> 's list \<Rightarrow> ('l, 'd) trace option" where
  "trace_of describe i parent states =
     map_option (\<lambda>ls. \<lparr>steps = rev ls, final_state = describe (states ! i)\<rparr>)
       (trace_walk parent i [])"

text \<open>
  The body of the \<open>for (label, s) in next(&current)\<close> loop. \<open>Inl (j, v, st)\<close> is the early return
  with violation \<open>v\<close> of state \<open>j\<close>; on the state budget the queue is cleared and the loop breaks.
\<close>

definition push_state :: "nat \<Rightarrow> nat \<Rightarrow> 'l \<Rightarrow> 's \<Rightarrow> ('s, 'l) search \<Rightarrow> ('s, 'l) search" where
  "push_state i d label s st = st\<lparr>
     sr_states := sr_states st @ [s],
     sr_index := (sr_index st)(s \<mapsto> length (sr_states st)),
     sr_parent := sr_parent st @ [Some (i, label)],
     sr_depth := sr_depth st @ [Suc d],
     sr_max_depth := max (sr_max_depth st) (Suc d)\<rparr>"

fun expand :: "('s \<Rightarrow> 'v + unit) \<Rightarrow> nat \<Rightarrow> nat \<Rightarrow> nat \<Rightarrow> ('l \<times> 's) list \<Rightarrow> ('s, 'l) search \<Rightarrow>
    (nat \<times> 'v \<times> ('s, 'l) search) + ('s, 'l) search" where
  "expand invariant max_states i d [] st = Inr st"
| "expand invariant max_states i d ((label, s) # succs) st =
     (let st = st\<lparr>sr_transitions := Suc (sr_transitions st)\<rparr>
      in if sr_index st s \<noteq> None then expand invariant max_states i d succs st
         else
           let j = length (sr_states st); st = push_state i d label s st
           in case invariant s of
                Inl v \<Rightarrow> Inl (j, v, st)
              | Inr _ \<Rightarrow>
                  if max_states \<le> length (sr_states st)
                  then Inr (st\<lparr>sr_truncated := True, sr_queue := []\<rparr>)
                  else expand invariant max_states i d succs
                         (st\<lparr>sr_queue := sr_queue st @ [j]\<rparr>))"

partial_function (option) search_loop ::
  "('s \<Rightarrow> ('l \<times> 's) list) \<Rightarrow> ('s \<Rightarrow> 'v + unit) \<Rightarrow> nat \<Rightarrow> ('s, 'l) search \<Rightarrow>
   ((nat \<times> 'v \<times> ('s, 'l) search) + ('s, 'l) search) option" where
  "search_loop nxt invariant max_states st =
     (case sr_queue st of
        [] \<Rightarrow> Some (Inr st)
      | i # q \<Rightarrow>
          (case expand invariant max_states i (sr_depth st ! i) (nxt (sr_states st ! i))
                  (st\<lparr>sr_queue := q\<rparr>) of
             Inl r \<Rightarrow> Some (Inl r)
           | Inr st' \<Rightarrow>
               if sr_truncated st' then Some (Inr st')
               else search_loop nxt invariant max_states st'))"

definition report ::
  "string \<Rightarrow> 'b \<Rightarrow> ('s, 'l) search \<Rightarrow> bool \<Rightarrow> ('v \<times> ('l, 'd) trace) option \<Rightarrow>
   ('b, 'l, 'd, 'v) model_report" where
  "report model bounds st truncated violation =
     \<lparr>rep_model = model, rep_bounds = bounds, rep_states = length (sr_states st),
      rep_transitions = sr_transitions st, rep_max_depth = sr_max_depth st,
      rep_truncated = truncated, rep_violation = violation\<rparr>"

definition explore ::
  "string \<Rightarrow> 'b \<Rightarrow> 's \<Rightarrow> ('s \<Rightarrow> ('l \<times> 's) list) \<Rightarrow> ('s \<Rightarrow> 'v + unit) \<Rightarrow> ('s \<Rightarrow> 'd) \<Rightarrow> nat \<Rightarrow>
   ('b, 'l, 'd, 'v) model_report option" where
  "explore model bounds init nxt invariant describe max_states =
     (let st = search_init init
      in case invariant init of
           Inl v \<Rightarrow>
             map_option (\<lambda>t. report model bounds st False (Some (v, t)))
               (trace_of describe 0 (sr_parent st) (sr_states st))
         | Inr _ \<Rightarrow>
             Option.bind (search_loop nxt invariant max_states st)
               (\<lambda>r. case r of
                  Inl (j, v, st') \<Rightarrow>
                    map_option (\<lambda>t. report model bounds st' False (Some (v, t)))
                      (trace_of describe j (sr_parent st') (sr_states st'))
                | Inr st' \<Rightarrow> Some (report model bounds st' (sr_truncated st') None)))"

text \<open>Guarded unfoldings, which evaluate a run without unfolding the recursion under a case.\<close>

lemma search_loop_done: "sr_queue st = [] \<Longrightarrow> search_loop nxt invariant max_states st = Some (Inr st)"
  by (simp add: search_loop.simps)

lemma search_loop_round:
  "sr_queue st = i # q \<Longrightarrow> search_loop nxt invariant max_states st =
     (case expand invariant max_states i (sr_depth st ! i) (nxt (sr_states st ! i))
             (st\<lparr>sr_queue := q\<rparr>) of
        Inl r \<Rightarrow> Some (Inl r)
      | Inr st' \<Rightarrow> if sr_truncated st' then Some (Inr st') else search_loop nxt invariant max_states st')"
  by (subst search_loop.simps) simp

lemma trace_walk_root: "parent ! cur = None \<Longrightarrow> trace_walk parent cur acc = Some acc"
  by (simp add: trace_walk.simps)

lemma trace_walk_up:
  "parent ! cur = Some (p, l) \<Longrightarrow> trace_walk parent cur acc = trace_walk parent p (acc @ [l])"
  by (subst trace_walk.simps) simp

lemmas explore_eval = explore_def search_init_def search_loop_done search_loop_round push_state_def
  report_def trace_of_def trace_walk_root trace_walk_up

section \<open>Well-formed searches\<close>

definition search_wf :: "('s \<Rightarrow> ('l \<times> 's) list) \<Rightarrow> 's \<Rightarrow> ('s, 'l) search \<Rightarrow> bool" where
  "search_wf nxt init st \<longleftrightarrow>
     length (sr_parent st) = length (sr_states st) \<and>
     sr_states st \<noteq> [] \<and> sr_states st ! 0 = init \<and> sr_parent st ! 0 = None \<and>
     (\<forall>j < length (sr_states st). 0 < j \<longrightarrow>
        (\<exists>i l. sr_parent st ! j = Some (i, l) \<and> i < j \<and>
           (l, sr_states st ! j) \<in> set (nxt (sr_states st ! i)))) \<and>
     (\<forall>s k. sr_index st s = Some k \<longleftrightarrow> k < length (sr_states st) \<and> sr_states st ! k = s) \<and>
     (\<forall>k \<in> set (sr_queue st). k < length (sr_states st))"

definition all_ok :: "('s \<Rightarrow> 'v + unit) \<Rightarrow> ('s, 'l) search \<Rightarrow> bool" where
  "all_ok invariant st \<longleftrightarrow> (\<forall>s \<in> set (sr_states st). invariant s = Inr ())"

lemma sum_unit_Inr: "(x :: 'v + unit) = Inr u \<longleftrightarrow> x = Inr ()"
  by simp

lemma search_wf_init: "search_wf nxt init (search_init init)"
  by (auto simp: search_wf_def search_init_def)

lemma search_wf_index_None:
  assumes "search_wf nxt init st"
  shows "sr_index st s = None \<longleftrightarrow> s \<notin> set (sr_states st)"
proof -
  have "(\<exists>k. sr_index st s = Some k) \<longleftrightarrow> (\<exists>k < length (sr_states st). sr_states st ! k = s)"
    using assms by (auto simp: search_wf_def)
  then show ?thesis by (metis in_set_conv_nth not_None_eq)
qed

lemma search_wf_transitions [simp]:
  "search_wf nxt init (st\<lparr>sr_transitions := n\<rparr>) = search_wf nxt init st"
  by (simp add: search_wf_def)

lemma search_wf_queue:
  "search_wf nxt init st \<Longrightarrow> \<forall>k \<in> set q. k < length (sr_states st) \<Longrightarrow>
   search_wf nxt init (st\<lparr>sr_queue := q\<rparr>)"
  by (simp add: search_wf_def)

lemma search_wf_truncated:
  "search_wf nxt init st \<Longrightarrow> search_wf nxt init (st\<lparr>sr_truncated := b, sr_queue := []\<rparr>)"
  by (simp add: search_wf_def)

lemma push_state_simps [simp]:
  "sr_states (push_state i d l s st) = sr_states st @ [s]"
  "sr_queue (push_state i d l s st) = sr_queue st"
  "sr_truncated (push_state i d l s st) = sr_truncated st"
  by (simp_all add: push_state_def)

lemma search_wf_push:
  assumes wf: "search_wf nxt init st" and new: "s \<notin> set (sr_states st)"
    and i: "i < length (sr_states st)" and succ: "(l, s) \<in> set (nxt (sr_states st ! i))"
  shows "search_wf nxt init (push_state i d l s st)"
proof -
  have idx: "sr_index st t = Some k \<longleftrightarrow> k < length (sr_states st) \<and> sr_states st ! k = t" for t k
    using wf by (simp add: search_wf_def)
  have "(sr_index (push_state i d l s st) t = Some k) \<longleftrightarrow>
      k < length (sr_states st @ [s]) \<and> (sr_states st @ [s]) ! k = t" for t k
    using new idx [of t k] idx [of s k]
    by (auto simp: push_state_def nth_append less_Suc_eq)
  moreover have "\<exists>i' l'. (sr_parent st @ [Some (i, l)]) ! j = Some (i', l') \<and> i' < j \<and>
      (l', (sr_states st @ [s]) ! j) \<in> set (nxt ((sr_states st @ [s]) ! i'))"
    if j: "j < Suc (length (sr_states st))" and "0 < j" for j
  proof (cases "j = length (sr_states st)")
    case True
    then show ?thesis using wf i succ by (auto simp: search_wf_def nth_append)
  next
    case False
    with j have "j < length (sr_states st)" by simp
    with wf \<open>0 < j\<close> obtain i' l' where "sr_parent st ! j = Some (i', l')" "i' < j"
      "(l', sr_states st ! j) \<in> set (nxt (sr_states st ! i'))"
      by (auto simp: search_wf_def)
    with \<open>j < length (sr_states st)\<close> wf show ?thesis
      by (auto simp: search_wf_def nth_append)
  qed
  ultimately show ?thesis
    using wf by (auto simp: search_wf_def push_state_def nth_append less_SucI)
qed

section \<open>Expanding one state\<close>

definition expanded ::
  "('s \<Rightarrow> ('l \<times> 's) list) \<Rightarrow> ('s \<Rightarrow> 'v + unit) \<Rightarrow> 's \<Rightarrow> nat \<Rightarrow> ('l \<times> 's) list \<Rightarrow> ('s, 'l) search \<Rightarrow>
   ('s, 'l) search \<Rightarrow> bool" where
  "expanded nxt invariant init max_states succs st st' \<longleftrightarrow>
     search_wf nxt init st' \<and> all_ok invariant st' \<and>
     (\<exists>ys. sr_states st' = sr_states st @ ys) \<and>
     (\<not> sr_truncated st' \<longrightarrow>
        snd ` set succs \<subseteq> set (sr_states st') \<and>
        sr_queue st' = sr_queue st @ [length (sr_states st)..<length (sr_states st')] \<and>
        (sr_states st' = sr_states st \<or> length (sr_states st') < max_states))"

lemma expand_Inr:
  assumes "expand invariant max_states i d succs st = Inr st'"
    and "search_wf nxt init st" and "all_ok invariant st" and "i < length (sr_states st)"
    and "set succs \<subseteq> set (nxt (sr_states st ! i))" and "\<not> sr_truncated st"
  shows "expanded nxt invariant init max_states succs st st'"
  using assms
proof (induction invariant max_states i d succs st rule: expand.induct)
  case (1 invariant max_states i d st)
  then show ?case by (simp add: expanded_def)
next
  case (2 invariant max_states i d label s succs st)
  let ?st = "st\<lparr>sr_transitions := Suc (sr_transitions st)\<rparr>"
  let ?push = "push_state i d label s ?st"
  have in_nxt: "(label, s) \<in> set (nxt (sr_states st ! i))" and
    rest: "set succs \<subseteq> set (nxt (sr_states st ! i))" using "2.prems" by auto
  show ?case
  proof (cases "sr_index st s = None")
    case False
    then have "s \<in> set (sr_states st)"
      using search_wf_index_None [OF "2.prems"(2), of s] by simp
    with False "2.IH"(1) [OF refl] "2.prems" rest show ?thesis
      by (auto simp: expanded_def all_ok_def)
  next
    case True
    then have new: "s \<notin> set (sr_states st)"
      using search_wf_index_None [OF "2.prems"(2), of s] by simp
    with "2.prems"(1) True have inv: "invariant s = Inr ()"
      by (cases "invariant s") auto
    have wf': "search_wf nxt init ?push"
      by (rule search_wf_push) (use "2.prems" new in_nxt in auto)
    have ok': "all_ok invariant ?push" using "2.prems"(3) inv by (simp add: all_ok_def)
    show ?thesis
    proof (cases "max_states \<le> Suc (length (sr_states st))")
      case True
      with \<open>sr_index st s = None\<close> inv "2.prems"(1) show ?thesis
        using wf' ok' by (auto simp: expanded_def all_ok_def search_wf_truncated)
    next
      case False
      let ?next = "?push\<lparr>sr_queue := sr_queue ?push @ [length (sr_states st)]\<rparr>"
      have "expanded nxt invariant init max_states succs ?next st'"
        using "2.IH"(2) [OF refl, of "length (sr_states st)" ?push "()"] "2.prems"
          \<open>sr_index st s = None\<close> False inv wf' ok' rest
        by (auto simp: all_ok_def nth_append search_wf_def)
      then show ?thesis using False
        by (auto simp: expanded_def upt_conv_Cons simp del: upt_Suc)
    qed
  qed
qed

lemma expand_Inl:
  assumes "expand invariant max_states i d succs st = Inl (j, v, st')"
    and "search_wf nxt init st" and "i < length (sr_states st)"
    and "set succs \<subseteq> set (nxt (sr_states st ! i))"
  shows "search_wf nxt init st' \<and> j < length (sr_states st') \<and> invariant (sr_states st' ! j) = Inl v"
  using assms
proof (induction invariant max_states i d succs st rule: expand.induct)
  case (1 invariant max_states i d st)
  then show ?case by simp
next
  case (2 invariant max_states i d label s succs st)
  let ?st = "st\<lparr>sr_transitions := Suc (sr_transitions st)\<rparr>"
  let ?push = "push_state i d label s ?st"
  show ?case
  proof (cases "sr_index st s = None")
    case False
    with "2.IH"(1) [OF refl] "2.prems" show ?thesis by auto
  next
    case True
    then have "s \<notin> set (sr_states st)"
      using search_wf_index_None [OF "2.prems"(2), of s] by simp
    then have wf': "search_wf nxt init ?push"
      by (intro search_wf_push) (use "2.prems" in auto)
    show ?thesis
    proof (cases "invariant s")
      case (Inl w)
      with True "2.prems"(1) wf' show ?thesis by (auto simp: nth_append)
    next
      case (Inr u)
      let ?next = "?push\<lparr>sr_queue := sr_queue ?push @ [length (sr_states st)]\<rparr>"
      have "search_wf nxt init ?next" using wf' by (auto simp: search_wf_def)
      with "2.IH"(2) [OF refl _ refl refl Inr] "2.prems" True Inr show ?thesis
        by (auto simp: nth_append Let_def split: if_splits)
    qed
  qed
qed

section \<open>The search loop returns\<close>

lemma trace_walk_path:
  assumes "search_wf nxt init st" and "k < length (sr_states st)"
  shows "\<exists>ls. trace_walk (sr_parent st) k acc = Some (acc @ rev ls) \<and> path nxt init ls (sr_states st ! k)"
  using assms(2)
proof (induction k arbitrary: acc rule: less_induct)
  case (less k)
  show ?case
  proof (cases "k = 0")
    case True
    with assms(1) show ?thesis
      by (subst trace_walk.simps) (auto simp: search_wf_def intro: path_nil exI [of _ "[]"])
  next
    case False
    with assms(1) less.prems obtain i l where p: "sr_parent st ! k = Some (i, l)" "i < k"
      and succ: "(l, sr_states st ! k) \<in> set (nxt (sr_states st ! i))"
      by (auto simp: search_wf_def)
    with less.prems obtain ls where walk: "trace_walk (sr_parent st) i (acc @ [l]) = Some ((acc @ [l]) @ rev ls)"
      and "path nxt init ls (sr_states st ! i)"
      using less.IH [of i "acc @ [l]"] by auto
    then have "path nxt init (ls @ [l]) (sr_states st ! k)" using succ by (rule_tac path_snoc)
    with walk p show ?thesis
      by (subst trace_walk.simps) (auto intro!: exI [of _ "ls @ [l]"])
  qed
qed

lemma trace_of_path:
  assumes "search_wf nxt init st" and "k < length (sr_states st)"
  shows "\<exists>t. trace_of describe k (sr_parent st) (sr_states st) = Some t \<and>
     path nxt init (steps t) (sr_states st ! k) \<and> final_state t = describe (sr_states st ! k)"
  using trace_walk_path [OF assms, of "[]"] by (auto simp: trace_of_def)

text \<open>
  Expanding never revisits a state: every round consumes one queue entry, and each state it adds
  uses up one unit of the state budget.
\<close>

definition loop_measure :: "nat \<Rightarrow> ('s, 'l) search \<Rightarrow> nat" where
  "loop_measure max_states st =
     2 * (Suc max_states - length (sr_states st)) + length (sr_queue st)"

definition closed_except :: "('s \<Rightarrow> ('l \<times> 's) list) \<Rightarrow> ('s, 'l) search \<Rightarrow> bool" where
  "closed_except nxt st \<longleftrightarrow>
     (\<forall>k < length (sr_states st). k \<notin> set (sr_queue st) \<longrightarrow>
        snd ` set (nxt (sr_states st ! k)) \<subseteq> set (sr_states st))"

lemma round_invariants:
  assumes wf: "search_wf nxt init st" and ok: "all_ok invariant st"
    and closed: "closed_except nxt st" and q: "sr_queue st = i # q" and "\<not> sr_truncated st"
    and ex: "expand invariant max_states i (sr_depth st ! i) (nxt (sr_states st ! i))
      (st\<lparr>sr_queue := q\<rparr>) = Inr st'" and nt: "\<not> sr_truncated st'"
  shows "search_wf nxt init st'" and "all_ok invariant st'" and "closed_except nxt st'"
    and "loop_measure max_states st' < loop_measure max_states st"
proof -
  let ?st = "st\<lparr>sr_queue := q\<rparr>"
  have i: "i < length (sr_states st)" using wf q by (simp add: search_wf_def)
  have wf': "search_wf nxt init ?st" using wf q by (simp add: search_wf_def)
  have e: "expanded nxt invariant init max_states (nxt (sr_states st ! i)) ?st st'"
    by (rule expand_Inr [OF ex wf']) (use ok i assms(5) in \<open>auto simp: all_ok_def\<close>)
  then show "search_wf nxt init st'" and "all_ok invariant st'" by (auto simp: expanded_def)
  from e nt obtain ys where ys: "sr_states st' = sr_states st @ ys"
    and cl: "snd ` set (nxt (sr_states st ! i)) \<subseteq> set (sr_states st')"
    and q': "sr_queue st' = q @ [length (sr_states st)..<length (sr_states st')]"
    and bound: "ys = [] \<or> length (sr_states st') < max_states"
    by (auto simp: expanded_def)
  show "closed_except nxt st'"
    unfolding closed_except_def
  proof (intro allI impI)
    fix k assume k: "k < length (sr_states st')" "k \<notin> set (sr_queue st')"
    then have "k < length (sr_states st)" using q' by auto
    with k closed q q' cl ys show "snd ` set (nxt (sr_states st' ! k)) \<subseteq> set (sr_states st')"
      by (cases "k = i") (auto simp: closed_except_def nth_append)
  qed
  show "loop_measure max_states st' < loop_measure max_states st"
    using bound ys q q' by (auto simp: loop_measure_def)
qed

lemma search_loop_returns:
  assumes "search_wf nxt init st" and "all_ok invariant st" and "closed_except nxt st"
    and "\<not> sr_truncated st"
  shows "\<exists>r. search_loop nxt invariant max_states st = Some r \<and>
    (case r of
       Inl (j, v, st') \<Rightarrow> search_wf nxt init st' \<and> j < length (sr_states st') \<and>
         invariant (sr_states st' ! j) = Inl v
     | Inr st' \<Rightarrow> search_wf nxt init st' \<and> all_ok invariant st' \<and>
         (\<not> sr_truncated st' \<longrightarrow> sr_queue st' = [] \<and> closed_except nxt st'))"
  using assms
proof (induction "loop_measure max_states st" arbitrary: st rule: less_induct)
  case less
  show ?case
  proof (cases "sr_queue st")
    case Nil
    with less.prems show ?thesis by (subst search_loop.simps) simp
  next
    case (Cons i q)
    let ?ex = "expand invariant max_states i (sr_depth st ! i) (nxt (sr_states st ! i)) (st\<lparr>sr_queue := q\<rparr>)"
    have i: "i < length (sr_states st)" and wf': "search_wf nxt init (st\<lparr>sr_queue := q\<rparr>)"
      using less.prems(1) Cons by (simp_all add: search_wf_def)
    show ?thesis
    proof (cases ?ex)
      case (Inl r)
      obtain j v st' where r: "r = (j, v, st')" by (cases r)
      have "search_wf nxt init st' \<and> j < length (sr_states st') \<and> invariant (sr_states st' ! j) = Inl v"
        by (rule expand_Inl [OF Inl [unfolded r] wf']) (use i in auto)
      with Cons Inl r show ?thesis by (subst search_loop.simps) simp
    next
      case (Inr st')
      show ?thesis
      proof (cases "sr_truncated st'")
        case True
        have "expanded nxt invariant init max_states (nxt (sr_states st ! i)) (st\<lparr>sr_queue := q\<rparr>) st'"
          by (rule expand_Inr [OF Inr wf']) (use less.prems i in \<open>auto simp: all_ok_def\<close>)
        with Cons Inr True show ?thesis
          by (subst search_loop.simps) (simp add: expanded_def)
      next
        case False
        note round = round_invariants [OF less.prems(1,2,3) Cons less.prems(4) Inr False]
        from less.hyps [OF round(4,1,2,3) False] Cons Inr False show ?thesis
          by (subst search_loop.simps) simp
      qed
    qed
  qed
qed

lemma closed_reachable:
  assumes "closed_except nxt st" and "sr_queue st = []" and "init \<in> set (sr_states st)"
    and "reachable nxt init s"
  shows "s \<in> set (sr_states st)"
  using assms(4,3)
proof (induction rule: reachable.induct)
  case (reachable_step s l t)
  then obtain k where "k < length (sr_states st)" "sr_states st ! k = s"
    by (auto simp: in_set_conv_nth)
  with assms(1,2) have "snd ` set (nxt s) \<subseteq> set (sr_states st)"
    by (auto simp: closed_except_def)
  with reachable_step.hyps(2) show ?case by force
qed simp

lemma search_wf_distinct: "search_wf nxt init st \<Longrightarrow> distinct (sr_states st)"
  unfolding search_wf_def distinct_conv_nth by (metis option.inject)

lemma search_wf_init_mem: "search_wf nxt init st \<Longrightarrow> init \<in> set (sr_states st)"
  unfolding search_wf_def by (metis length_greater_0_conv nth_mem)

lemma search_wf_sound:
  assumes "search_wf nxt init st" "s \<in> set (sr_states st)"
  shows "reachable nxt init s"
proof -
  from assms(2) obtain i where "i < length (sr_states st)" "sr_states st ! i = s"
    by (auto simp: in_set_conv_nth)
  with trace_of_path [OF assms(1), of i undefined] show ?thesis by (metis path_reachable)
qed

lemma expand_truncated:
  "expand invariant max_states i d succs st = Inr st' \<Longrightarrow> sr_truncated st' \<Longrightarrow> \<not> sr_truncated st \<Longrightarrow>
   max_states \<le> length (sr_states st')"
  by (induction invariant max_states i d succs st rule: expand.induct)
    (auto simp: Let_def split: if_splits sum.splits)

lemma search_loop_truncated:
  fixes nxt :: "'a \<Rightarrow> ('b \<times> 'a) list" and invariant :: "'a \<Rightarrow> 'c + unit"
  assumes "search_loop nxt invariant max_states st = Some r"
  shows "\<forall>st'. r = Inr st' \<and> sr_truncated st' \<and> \<not> sr_truncated st \<longrightarrow> max_states \<le> length (sr_states st')"
proof (rule search_loop.raw_induct [where P = "\<lambda>nxt invariant max_states st r. \<forall>st'. r = Inr st' \<and>
    sr_truncated st' \<and> \<not> sr_truncated st \<longrightarrow> max_states \<le> length (sr_states st')", OF _ assms])
  fix loop :: "('a \<Rightarrow> ('b \<times> 'a) list) \<Rightarrow> ('a \<Rightarrow> 'c + unit) \<Rightarrow> nat \<Rightarrow> ('a, 'b) search \<Rightarrow>
    ((nat \<times> 'c \<times> ('a, 'b) search) + ('a, 'b) search) option"
    and nxt invariant max_states and st :: "('a, 'b) search" and r
  assume IH: "\<And>nxt invariant max_states st r. loop nxt invariant max_states st = Some r \<Longrightarrow>
      \<forall>st'. r = Inr st' \<and> sr_truncated st' \<and> \<not> sr_truncated st \<longrightarrow> max_states \<le> length (sr_states st')"
    and r: "(case sr_queue st of [] \<Rightarrow> Some (Inr st)
      | i # q \<Rightarrow> (case expand invariant max_states i (sr_depth st ! i) (nxt (sr_states st ! i))
                  (st\<lparr>sr_queue := q\<rparr>) of
             Inl r \<Rightarrow> Some (Inl r)
           | Inr st' \<Rightarrow> if sr_truncated st' then Some (Inr st') else loop nxt invariant max_states st'))
        = Some r"
  show "\<forall>st'. r = Inr st' \<and> sr_truncated st' \<and> \<not> sr_truncated st \<longrightarrow> max_states \<le> length (sr_states st')"
    using r by (auto split: list.splits sum.splits if_splits dest: expand_truncated IH)
qed

text \<open>Everything the properties below need of a run of the explorer.\<close>

lemma explore_outcome:
  "\<exists>r. explore model bounds init nxt invariant describe max_states = Some r \<and>
     (case rep_violation r of
        Some (v, t) \<Rightarrow> (\<exists>s. path nxt init (steps t) s \<and> invariant s = Inl v \<and>
          final_state t = describe s)
      | None \<Rightarrow> (\<exists>ss. distinct ss \<and> length ss = rep_states r \<and>
          set ss \<subseteq> {s. reachable nxt init s} \<and> (\<forall>s \<in> set ss. invariant s = Inr ()) \<and>
          (if rep_truncated r then max_states \<le> length ss else set ss = {s. reachable nxt init s})))"
proof (cases "invariant init")
  case (Inl v)
  obtain t where "trace_of describe 0 (sr_parent (search_init init)) (sr_states (search_init init)) = Some t"
    "path nxt init (steps t) (sr_states (search_init init) ! 0)"
    "final_state t = describe (sr_states (search_init init) ! 0)"
    using trace_of_path [OF search_wf_init [of nxt init], of 0] by (auto simp: search_init_def)
  with Inl show ?thesis by (auto simp: explore_def report_def search_init_def)
next
  case (Inr u)
  let ?st = "search_init init"
  have "all_ok invariant ?st" "closed_except nxt ?st" "\<not> sr_truncated ?st"
    using Inr by (auto simp: all_ok_def closed_except_def search_init_def)
  from search_loop_returns [OF search_wf_init this] obtain r where
    r: "search_loop nxt invariant max_states ?st = Some r" and
    spec: "case r of Inl (j, v, st') \<Rightarrow> search_wf nxt init st' \<and> j < length (sr_states st') \<and>
         invariant (sr_states st' ! j) = Inl v
     | Inr st' \<Rightarrow> search_wf nxt init st' \<and> all_ok invariant st' \<and>
         (\<not> sr_truncated st' \<longrightarrow> sr_queue st' = [] \<and> closed_except nxt st')" by blast
  show ?thesis
  proof (cases r)
    case (Inl x)
    obtain j v st' where x: "x = (j, v, st')" by (cases x)
    with spec Inl have st': "search_wf nxt init st'" "j < length (sr_states st')"
      "invariant (sr_states st' ! j) = Inl v" by auto
    then show ?thesis using trace_of_path [OF st'(1,2), of describe] Inr r Inl x
      by (auto simp: explore_def report_def)
  next
    case (Inr st')
    with spec have wf: "search_wf nxt init st'" and ok: "all_ok invariant st'"
      and cl: "\<not> sr_truncated st' \<Longrightarrow> sr_queue st' = [] \<and> closed_except nxt st'" by auto
    have "set (sr_states st') = {s. reachable nxt init s}" if "\<not> sr_truncated st'"
      using search_wf_sound [OF wf] closed_reachable [OF _ _ search_wf_init_mem [OF wf]] cl [OF that]
      by blast
    moreover have "max_states \<le> length (sr_states st')" if "sr_truncated st'"
      using search_loop_truncated [OF r] Inr that by (simp add: search_init_def)
    moreover have "set (sr_states st') \<subseteq> {s. reachable nxt init s}"
      using search_wf_sound [OF wf] by blast
    ultimately have "distinct (sr_states st') \<and> set (sr_states st') \<subseteq> {s. reachable nxt init s} \<and>
       (\<forall>s \<in> set (sr_states st'). invariant s = Inr ()) \<and> (if sr_truncated st'
         then max_states \<le> length (sr_states st') else set (sr_states st') = {s. reachable nxt init s})"
      using ok search_wf_distinct [OF wf] by (simp add: all_ok_def)
    with \<open>invariant init = Inr u\<close> r Inr show ?thesis
      by (auto simp: explore_def report_def intro!: exI [of _ "sr_states st'"])
  qed
qed

section \<open>Models whose invariant is inductive\<close>

text \<open>
  What a model owes its checker: an initial state, a successor function, an executable invariant,
  and a stronger property that the initial state has, that every step keeps and that implies the
  invariant.
\<close>

locale checked_model =
  fixes nxt :: "'s \<Rightarrow> ('l \<times> 's) list" and init :: 's
    and invariant :: "'s \<Rightarrow> 'v + unit" and strong :: "'s \<Rightarrow> bool"
  assumes strong_init: "strong init"
    and strong_step: "strong s \<Longrightarrow> (l, t) \<in> set (nxt s) \<Longrightarrow> strong t"
    and strong_ok: "strong s \<Longrightarrow> invariant s = Inr ()"
begin

lemma reachable_strong: "reachable nxt init s \<Longrightarrow> strong s"
  by (induction rule: reachable.induct) (auto intro: strong_init strong_step)

lemma reachable_ok: "reachable nxt init s \<Longrightarrow> invariant s = Inr ()"
  by (rule strong_ok [OF reachable_strong])

lemma explore_no_violation:
  "explore model bounds init nxt invariant describe max_states = Some r \<Longrightarrow> rep_violation r = None"
  using explore_outcome [of model bounds init nxt invariant describe max_states]
  by (auto split: option.splits dest!: path_reachable reachable_ok)

end

text \<open>With a budget above the number of reachable states the run is not truncated.\<close>

lemma explore_untruncated:
  assumes "explore model bounds init nxt invariant describe max_states = Some r"
    and "finite {s. reachable nxt init s}" "card {s. reachable nxt init s} < max_states"
    and "rep_violation r = None"
  shows "\<not> rep_truncated r"
proof
  assume "rep_truncated r"
  then obtain ss where ss: "distinct ss" "set ss \<subseteq> {s. reachable nxt init s}" "max_states \<le> length ss"
    using explore_outcome [of model bounds init nxt invariant describe max_states] assms(1,4) by auto
  then have "length ss \<le> card {s. reachable nxt init s}"
    using card_mono [OF assms(2) ss(2)] by (simp add: distinct_card)
  with ss(3) assms(3) show False by simp
qed

lemma explore_finds_violation:
  assumes "explore model bounds init nxt invariant describe max_states = Some r"
    and "finite {s. reachable nxt init s}" "card {s. reachable nxt init s} < max_states"
    and "reachable nxt init s" "invariant s \<noteq> Inr ()"
  shows "rep_violation r \<noteq> None"
proof
  assume none: "rep_violation r = None"
  with explore_untruncated [OF assms(1-3)]
    explore_outcome [of model bounds init nxt invariant describe max_states] assms(1)
  obtain ss where "set ss = {s. reachable nxt init s}" "\<forall>s \<in> set ss. invariant s = Inr ()" by auto
  with assms(4,5) show False by auto
qed

text \<open>Following a list of labels from a state, to exhibit reachable states by evaluation.\<close>

fun follow :: "('s \<Rightarrow> ('l \<times> 's) list) \<Rightarrow> 's \<Rightarrow> 'l list \<Rightarrow> 's option" where
  "follow nxt s [] = Some s"
| "follow nxt s (l # ls) = Option.bind (map_of (nxt s) l) (\<lambda>t. follow nxt t ls)"

lemma follow_reachable:
  "follow nxt s ls = Some t \<Longrightarrow> reachable nxt init s \<Longrightarrow> reachable nxt init t"
  by (induction nxt s ls rule: follow.induct)
    (auto simp: bind_eq_Some_conv dest: map_of_SomeD intro: reachable_step)

lemma follow_violation:
  "map_option invariant (follow nxt init ls) = Some (Inl v) \<Longrightarrow>
   \<exists>s v. reachable nxt init s \<and> invariant s = Inl v"
  using follow_reachable [OF _ reachable_init] by fastforce

section \<open>Gate evidence\<close>

text \<open>
  \<open>GateEvidence\<close>: the positive run and its negative controls. The gate passes when the positive
  run found no violation within the budget and every control found one.
\<close>

record ('b, 'l, 'd, 'v, 'c) gate_evidence =
  gate :: string
  positive :: "('b, 'l, 'd, 'v) model_report"
  controls :: "('c \<times> ('b, 'l, 'd, 'v) model_report) list"

datatype ('c, 'v, 'l) gate_failure =
    Violated 'v "'l list"
  | TruncatedAt nat
  | NoCounterexample 'c nat

fun check_controls ::
  "('c \<times> ('b, 'l, 'd, 'v) model_report) list \<Rightarrow> ('c, 'v, 'l) gate_failure + unit" where
  "check_controls [] = Inr ()"
| "check_controls ((name, r) # cs) =
     (if rep_violation r = None then Inl (NoCounterexample name (rep_states r))
      else check_controls cs)"

definition verdict :: "('b, 'l, 'd, 'v, 'c) gate_evidence \<Rightarrow> ('c, 'v, 'l) gate_failure + unit" where
  "verdict ev =
     (case rep_violation (positive ev) of
        Some (v, t) \<Rightarrow> Inl (Violated v (steps t))
      | None \<Rightarrow>
          if rep_truncated (positive ev) then Inl (TruncatedAt (rep_states (positive ev)))
          else check_controls (controls ev))"

lemma check_controls_ok:
  "check_controls cs = Inr () \<longleftrightarrow> (\<forall>(n, r) \<in> set cs. rep_violation r \<noteq> None)"
  by (induction cs rule: check_controls.induct) auto

lemma verdict_ok:
  "verdict ev = Inr () \<longleftrightarrow> passed (positive ev) \<and> (\<forall>(n, r) \<in> set (controls ev). rep_violation r \<noteq> None)"
  by (auto simp: verdict_def passed_def check_controls_ok split: option.splits)

text \<open>What the \<open>evidence\<close> functions build: the positive run and one run per control.\<close>

definition collect_evidence :: "string \<Rightarrow> ('c option \<Rightarrow> ('b, 'l, 'd, 'v) model_report option) \<Rightarrow> 'c list \<Rightarrow>
    ('b, 'l, 'd, 'v, 'c) gate_evidence option" where
  "collect_evidence name run cs =
     Option.bind (run None) (\<lambda>pos.
       map_option (\<lambda>rs. \<lparr>gate = name, positive = pos, controls = zip cs rs\<rparr>)
         (those (map (\<lambda>c. run (Some c)) cs)))"

lemma those_map_Some: "(\<And>x. x \<in> set xs \<Longrightarrow> f x = Some (g x)) \<Longrightarrow> those (map f xs) = Some (map g xs)"
  by (induction xs) auto

text \<open>
  A model with negative controls whose state space is finite under every control: from some budget
  on, its gate passes.
\<close>

locale gated_model =
  fixes nxt :: "'c option \<Rightarrow> 's \<Rightarrow> ('l \<times> 's) list" and init :: 's
    and invariant :: "'s \<Rightarrow> 'v + unit" and strong :: "'s \<Rightarrow> bool" and cs :: "'c list"
  assumes checked: "checked_model (nxt None) init invariant strong"
    and finite_reachable: "finite {s. reachable (nxt c) init s}"
    and control_fails: "d \<in> set cs \<Longrightarrow> \<exists>s v. reachable (nxt (Some d)) init s \<and> invariant s = Inl v"
begin

lemma gate_passes:
  "\<exists>N. \<forall>M \<ge> N. \<exists>ev. collect_evidence name
     (\<lambda>c. explore name (bounds c) init (nxt c) invariant describe M) cs = Some ev \<and> verdict ev = Inr ()"
proof (rule exI, intro allI impI)
  let ?card = "\<lambda>c. card {s. reachable (nxt c) init s}"
  fix M assume M: "Suc (sum_list (map ?card (None # map Some cs))) \<le> M"
  have lt: "?card c < M" if "c \<in> set (None # map Some cs)" for c
  proof -
    from that have "?card c \<in> set (map ?card (None # map Some cs))"
      unfolding set_map by (rule imageI)
    from member_le_sum_list [OF this] M show ?thesis by linarith
  qed
  define run where "run = (\<lambda>c. explore name (bounds c) init (nxt c) invariant describe M)"
  have run: "run c = Some (the (run c))" for c
    using explore_outcome [of name "bounds c" init "nxt c" invariant describe M]
    by (auto simp: run_def)
  have "rep_violation (the (run None)) = None"
    using run [of None] checked_model.explore_no_violation [OF checked] by (simp add: run_def)
  moreover from this have "\<not> rep_truncated (the (run None))"
    using explore_untruncated [OF _ finite_reachable lt [of None]] run [of None] by (simp add: run_def)
  moreover have "rep_violation (the (run (Some c))) \<noteq> None" if "c \<in> set cs" for c
  proof -
    obtain s v where "reachable (nxt (Some c)) init s" "invariant s = Inl v"
      using control_fails \<open>c \<in> set cs\<close> by blast
    then show ?thesis
      using explore_finds_violation [OF run [of "Some c", unfolded run_def] finite_reachable lt] that
      by (simp add: run_def)
  qed
  moreover have "collect_evidence name run cs = Some \<lparr>gate = name, positive = the (run None),
      controls = zip cs (map (\<lambda>c. the (run (Some c))) cs)\<rparr>"
    unfolding collect_evidence_def those_map_Some [of cs "\<lambda>c. run (Some c)" "\<lambda>c. the (run (Some c))", OF run]
    by (subst run) simp
  ultimately show "\<exists>ev. collect_evidence name
     (\<lambda>c. explore name (bounds c) init (nxt c) invariant describe M) cs = Some ev \<and> verdict ev = Inr ()"
    unfolding run_def [symmetric]
    by (auto simp: verdict_ok passed_def zip_map2 set_zip)
qed

end

section \<open>Properties of the explorer\<close>

text \<open>C4: the exploration always returns a report, and a report that passed (no violation, not
  truncated) is a proof: the invariant holds in every reachable state, and the reported number of
  states is exactly the number of reachable states.\<close>

theorem explore_passed_is_proof:
  "\<exists>r. explore model bounds init nxt invariant describe max_states = Some r \<and>
     (passed r \<longrightarrow> (\<forall>s. reachable nxt init s \<longrightarrow> invariant s = Inr ()) \<and>
        finite {s. reachable nxt init s} \<and> card {s. reachable nxt init s} = rep_states r)"
proof -
  obtain r where r: "explore model bounds init nxt invariant describe max_states = Some r"
    and spec: "case rep_violation r of
        Some (v, t) \<Rightarrow> (\<exists>s. path nxt init (steps t) s \<and> invariant s = Inl v \<and>
          final_state t = describe s)
      | None \<Rightarrow> (\<exists>ss. distinct ss \<and> length ss = rep_states r \<and>
          set ss \<subseteq> {s. reachable nxt init s} \<and> (\<forall>s \<in> set ss. invariant s = Inr ()) \<and>
          (if rep_truncated r then max_states \<le> length ss else set ss = {s. reachable nxt init s}))"
    using explore_outcome [of model bounds init nxt invariant describe max_states] by blast
  have "(\<forall>s. reachable nxt init s \<longrightarrow> invariant s = Inr ()) \<and>
      finite {s. reachable nxt init s} \<and> card {s. reachable nxt init s} = rep_states r" if "passed r"
  proof -
    from that spec obtain ss where "distinct ss" "length ss = rep_states r"
      "set ss = {s. reachable nxt init s}" "\<forall>s \<in> set ss. invariant s = Inr ()"
      by (auto simp: passed_def)
    then show ?thesis by (metis List.finite_set distinct_card mem_Collect_eq)
  qed
  with r show ?thesis by blast
qed

lemma counter_run:
  "explore ''m'' ''b'' 0 (\<lambda>n. if n < 2 then [((), Suc n)] else [])
     (\<lambda>n. if n \<le> 2 then Inr () else Inl n) (id :: nat \<Rightarrow> nat) 10 =
   Some \<lparr>rep_model = ''m'', rep_bounds = ''b'', rep_states = 3, rep_transitions = 2,
         rep_max_depth = 2, rep_truncated = False, rep_violation = None\<rparr>"
  by (simp add: explore_eval)

theorem explore_passed_is_proof_witness:
  "finite {s. reachable (\<lambda>n. if n < 2 then [((), Suc n)] else []) 0 s} \<and>
   card {s. reachable (\<lambda>n. if n < 2 then [((), Suc n)] else []) 0 s} = 3"
  using explore_passed_is_proof [of "''m''" "''b''" 0 "\<lambda>n. if n < 2 then [((), Suc n)] else []"
      "\<lambda>n. if n \<le> 2 then Inr () else Inl n" "id :: nat \<Rightarrow> nat" 10]
  unfolding counter_run passed_def option.inject
  by (elim exE conjE, hypsubst) (simp only: model_report.simps simp_thms)

text \<open>C5: a reported violation is real. The steps of the reported trace lead from the initial state
  to a state in which the invariant fails with the reported message, and the reported final state
  describes it.\<close>

theorem explore_violation_is_real:
  assumes "explore model bounds init nxt invariant describe max_states = Some r"
    and "rep_violation r = Some (v, t)"
  shows "\<exists>s. path nxt init (steps t) s \<and> invariant s = Inl v \<and> final_state t = describe s"
  using explore_outcome [of model bounds init nxt invariant describe max_states] assms by auto

theorem explore_violation_is_real_witness:
  "\<exists>s. path (\<lambda>n. [(n, Suc n)]) 0 [0, 1] s \<and>
     (if s < 2 then Inr () else Inl s) = (Inl 2 :: nat + unit) \<and> 2 = id s"
  using explore_violation_is_real [of "''m''" "''b''" 0 "\<lambda>n. [(n, Suc n)]"
      "\<lambda>n. if n < 2 then Inr () else Inl n" id 10
      "\<lparr>rep_model = ''m'', rep_bounds = ''b'', rep_states = 3, rep_transitions = 2,
         rep_max_depth = 2, rep_truncated = False,
         rep_violation = Some (2, \<lparr>steps = [0, 1], final_state = 2\<rparr>)\<rparr>"
      2 "\<lparr>steps = [0, 1], final_state = 2\<rparr>"]
  by (simp add: explore_eval)

end
