(* ===== verification/FM1.thy ===== *)
theory FM1
  imports Explore
begin

text \<open>
  FM-1, escrow transfer (\<^verbatim>\<open>src/crates/carolina-models/src/fm1.rs\<close>): the state, the successor
  function and the invariant as the code has them, 8-bit counters included. The invariant is proved
  for every total and every list of transfer quantities, where the code explores one instance, and
  each negative control is shown to reach a violation.
\<close>

section \<open>The model\<close>

datatype donor = DonorAbsent | DonorPrepared | DonorCommitted | DonorAborted

datatype receiver = ReceiverAbsent | ReceiverAccepted | ReceiverApplied | ReceiverAborted

record transfer =
  tr_q :: u8
  tr_donor :: donor
  tr_receiver :: receiver
  tr_prepare_sent :: bool
  tr_accept_sent :: bool
  tr_commit_sent :: bool
  tr_abort_sent :: bool

record fm1_state =
  s1_total :: u8
  s1_u_donor :: u8
  s1_u_receiver :: u8
  s1_consumed :: u8
  s1_transfers :: "transfer list"
  s1_donor_closed :: bool
  s1_replica_view :: u8
  s1_replica_spends :: u8
  s1_spends_after_close :: u8
  s1_revivals :: u8

datatype fm1_control =
    RefundAfterCommit
  | DoubleInstall
  | NoReplicaFence
  | SpendAfterClose
  | LatePrepareResurrection

datatype fm1_label =
    DonorPrepare nat | SendPrepare nat | ReceiverAccept nat | LatePrepareRevives nat
  | SendAccept nat | DonorCommit nat | SendCommit nat | DonorAbort nat | SendAbort nat
  | ReceiverInstall nat | ReceiverAbort nat
  | SpendDonor | SpendReceiver | CloseDonorAuthority | StaleReplicaSpend

datatype fm1_violation =
    Conservation u8 u8 u8 u8 u32
  | CreditWithoutCommit nat
  | RefundAfterInstall nat
  | SpendByReplica
  | SpendAfterAuthorityClose
  | LatePrepareResurrected

definition x_of :: "transfer \<Rightarrow> u8" where
  "x_of t =
     (case (tr_donor t, tr_receiver t) of
        (DonorPrepared, r) \<Rightarrow> if r \<noteq> ReceiverApplied then tr_q t else 0
      | (DonorCommitted, r) \<Rightarrow> if r \<noteq> ReceiverApplied then tr_q t else 0
      | _ \<Rightarrow> 0)"

fun fm1_check_transfers :: "nat \<Rightarrow> transfer list \<Rightarrow> fm1_violation + unit" where
  "fm1_check_transfers i [] = Inr ()"
| "fm1_check_transfers i (t # ts) =
     (if tr_receiver t = ReceiverApplied \<and> tr_donor t \<noteq> DonorCommitted
      then Inl (CreditWithoutCommit i)
      else if tr_donor t = DonorAborted \<and> tr_receiver t = ReceiverApplied
      then Inl (RefundAfterInstall i)
      else fm1_check_transfers (Suc i) ts)"

definition fm1_invariant :: "fm1_state \<Rightarrow> fm1_violation + unit" where
  "fm1_invariant s =
     (let x = sum_list (map (\<lambda>t. ucast (x_of t)) (s1_transfers s)) :: u32;
          sum = ucast (s1_consumed s) + ucast (s1_u_donor s) + ucast (s1_u_receiver s) + x
      in if sum \<noteq> ucast (s1_total s)
         then Inl (Conservation (s1_total s) (s1_consumed s) (s1_u_donor s) (s1_u_receiver s) x)
         else
           case fm1_check_transfers 0 (s1_transfers s) of
             Inl v \<Rightarrow> Inl v
           | Inr _ \<Rightarrow>
               if s1_replica_spends s > 0 then Inl SpendByReplica
               else if s1_spends_after_close s > 0 then Inl SpendAfterAuthorityClose
               else if s1_revivals s > 0 then Inl LatePrepareResurrected
               else Inr ())"

definition set_transfer :: "nat \<Rightarrow> (transfer \<Rightarrow> transfer) \<Rightarrow> fm1_state \<Rightarrow> fm1_state" where
  "set_transfer i f s = s\<lparr>s1_transfers := (s1_transfers s)[i := f (s1_transfers s ! i)]\<rparr>"

definition fm1_transfer_steps ::
  "fm1_control option \<Rightarrow> fm1_state \<Rightarrow> nat \<Rightarrow> (fm1_label \<times> fm1_state) list" where
  "fm1_transfer_steps control s i =
     (let t = s1_transfers s ! i
      in guarded (tr_donor t = DonorAbsent \<and> \<not> s1_donor_closed s \<and> tr_q t \<le> s1_u_donor s)
           (DonorPrepare i, set_transfer i (tr_donor_update (\<lambda>_. DonorPrepared))
              (s\<lparr>s1_u_donor := s1_u_donor s - tr_q t\<rparr>)) @
         guarded (tr_donor t = DonorPrepared \<and> \<not> tr_prepare_sent t)
           (SendPrepare i, set_transfer i (tr_prepare_sent_update (\<lambda>_. True)) s) @
         guarded (tr_prepare_sent t \<and> tr_receiver t = ReceiverAbsent)
           (ReceiverAccept i, set_transfer i (tr_receiver_update (\<lambda>_. ReceiverAccepted)) s) @
         guarded (control = Some LatePrepareResurrection \<and> tr_prepare_sent t \<and>
             tr_receiver t = ReceiverAborted)
           (LatePrepareRevives i, set_transfer i (tr_receiver_update (\<lambda>_. ReceiverAccepted))
              (s\<lparr>s1_revivals := s1_revivals s + 1\<rparr>)) @
         guarded (tr_receiver t = ReceiverAccepted \<and> \<not> tr_accept_sent t)
           (SendAccept i, set_transfer i (tr_accept_sent_update (\<lambda>_. True)) s) @
         guarded (tr_accept_sent t \<and> tr_donor t = DonorPrepared)
           (DonorCommit i, set_transfer i (tr_donor_update (\<lambda>_. DonorCommitted)) s) @
         guarded (tr_donor t = DonorCommitted \<and> \<not> tr_commit_sent t)
           (SendCommit i, set_transfer i (tr_commit_sent_update (\<lambda>_. True)) s) @
         guarded (tr_donor t = DonorPrepared \<or>
             control = Some RefundAfterCommit \<and> tr_donor t = DonorCommitted)
           (DonorAbort i, set_transfer i (tr_donor_update (\<lambda>_. DonorAborted))
              (s\<lparr>s1_u_donor := s1_u_donor s + tr_q t\<rparr>)) @
         guarded (tr_donor t = DonorAborted \<and> \<not> tr_abort_sent t)
           (SendAbort i, set_transfer i (tr_abort_sent_update (\<lambda>_. True)) s) @
         guarded (tr_commit_sent t \<and>
             (tr_receiver t = ReceiverAccepted \<or>
              control = Some DoubleInstall \<and> tr_receiver t = ReceiverApplied))
           (ReceiverInstall i, set_transfer i (tr_receiver_update (\<lambda>_. ReceiverApplied))
              (s\<lparr>s1_u_receiver := s1_u_receiver s + tr_q t\<rparr>)) @
         guarded (tr_abort_sent t \<and> tr_receiver t \<in> {ReceiverAbsent, ReceiverAccepted})
           (ReceiverAbort i, set_transfer i (tr_receiver_update (\<lambda>_. ReceiverAborted)) s))"

definition fm1_holder_steps ::
  "fm1_control option \<Rightarrow> fm1_state \<Rightarrow> (fm1_label \<times> fm1_state) list" where
  "fm1_holder_steps control s =
     guarded (0 < s1_u_donor s \<and> (\<not> s1_donor_closed s \<or> control = Some SpendAfterClose))
       (SpendDonor, s\<lparr>s1_u_donor := s1_u_donor s - 1, s1_consumed := s1_consumed s + 1,
          s1_spends_after_close :=
            (if s1_donor_closed s then s1_spends_after_close s + 1 else s1_spends_after_close s)\<rparr>) @
     guarded (0 < s1_u_receiver s)
       (SpendReceiver, s\<lparr>s1_u_receiver := s1_u_receiver s - 1, s1_consumed := s1_consumed s + 1\<rparr>) @
     guarded (\<not> s1_donor_closed s)
       (CloseDonorAuthority, s\<lparr>s1_donor_closed := True, s1_replica_view := s1_u_donor s\<rparr>) @
     guarded (control = Some NoReplicaFence \<and> s1_donor_closed s \<and> 0 < s1_replica_view s)
       (StaleReplicaSpend, s\<lparr>s1_replica_view := s1_replica_view s - 1,
          s1_consumed := s1_consumed s + 1, s1_replica_spends := s1_replica_spends s + 1\<rparr>)"

definition fm1_next :: "fm1_control option \<Rightarrow> fm1_state \<Rightarrow> (fm1_label \<times> fm1_state) list" where
  "fm1_next control s =
     for_each (length (s1_transfers s)) (fm1_transfer_steps control s) @ fm1_holder_steps control s"

definition fm1_initial :: "u8 \<Rightarrow> u8 list \<Rightarrow> fm1_state" where
  "fm1_initial tot quantities =
     \<lparr>s1_total = tot, s1_u_donor = tot, s1_u_receiver = 0, s1_consumed = 0,
      s1_transfers = map (\<lambda>q. \<lparr>tr_q = q, tr_donor = DonorAbsent, tr_receiver = ReceiverAbsent,
        tr_prepare_sent = False, tr_accept_sent = False, tr_commit_sent = False,
        tr_abort_sent = False\<rparr>) quantities,
      s1_donor_closed = False, s1_replica_view = 0, s1_replica_spends = 0,
      s1_spends_after_close = 0, s1_revivals = 0\<rparr>"

definition fm1_describe :: "fm1_state \<Rightarrow> u8 \<times> u8 \<times> u8 \<times> bool \<times> (donor \<times> receiver) list" where
  "fm1_describe s = (s1_u_donor s, s1_u_receiver s, s1_consumed s, s1_donor_closed s,
     map (\<lambda>t. (tr_donor t, tr_receiver t)) (s1_transfers s))"

definition fm1_run :: "u8 \<Rightarrow> u8 list \<Rightarrow> fm1_control option \<Rightarrow> nat \<Rightarrow> _" where
  "fm1_run tot quantities control max_states =
     explore ''FM-1'' (tot, quantities, control) (fm1_initial tot quantities)
       (fm1_next control) fm1_invariant fm1_describe max_states"

definition fm1_controls :: "fm1_control list" where
  "fm1_controls = [RefundAfterCommit, DoubleInstall, NoReplicaFence, SpendAfterClose,
     LatePrepareResurrection]"

definition fm1_evidence :: "nat \<Rightarrow> _" where
  "fm1_evidence max_states =
     collect_evidence ''FM-1'' (\<lambda>c. fm1_run 3 [1, 2] c max_states) fm1_controls"

section \<open>The inductive invariant\<close>

text \<open>
  A transfer is consistent when a sent COMMIT or an applied receiver has a committed donor and a
  sent ABORT an aborted one. Conservation is stated in \<open>nat\<close>: none of the 8-bit counters wraps.
\<close>

definition transfer_ok :: "transfer \<Rightarrow> bool" where
  "transfer_ok t \<longleftrightarrow>
     (tr_commit_sent t \<or> tr_receiver t = ReceiverApplied \<longrightarrow> tr_donor t = DonorCommitted) \<and>
     (tr_abort_sent t \<longrightarrow> tr_donor t = DonorAborted)"

definition rights :: "fm1_state \<Rightarrow> nat" where
  "rights s = unat (s1_consumed s) + unat (s1_u_donor s) + unat (s1_u_receiver s) +
     sum_list (map (\<lambda>t. unat (x_of t)) (s1_transfers s))"

definition fm1_strong :: "fm1_state \<Rightarrow> bool" where
  "fm1_strong s \<longleftrightarrow> list_all transfer_ok (s1_transfers s) \<and> rights s = unat (s1_total s) \<and>
     s1_replica_spends s = 0 \<and> s1_spends_after_close s = 0 \<and> s1_revivals s = 0"

lemma fm1_strong_init: "fm1_strong (fm1_initial tot quantities)"
  by (simp add: fm1_strong_def fm1_initial_def rights_def transfer_ok_def list_all_iff x_of_def
      comp_def sum_list_map_eq_sum_count [of "\<lambda>_. 0"])

lemma fm1_check_transfers_ok:
  "list_all transfer_ok ts \<Longrightarrow> fm1_check_transfers i ts = Inr ()"
  by (induction i ts rule: fm1_check_transfers.induct) (auto simp: transfer_ok_def)

lemma sum_list_ucast:
  "sum_list (map (\<lambda>t. ucast (f t :: u8)) ts) = (of_nat (sum_list (map (\<lambda>t. unat (f t)) ts)) :: u32)"
  by (induction ts) simp_all

lemma fm1_strong_ok: "fm1_strong s \<Longrightarrow> fm1_invariant s = Inr ()"
proof -
  assume s: "fm1_strong s"
  have "ucast (s1_consumed s) + ucast (s1_u_donor s) + ucast (s1_u_receiver s) +
      sum_list (map (\<lambda>t. ucast (x_of t)) (s1_transfers s)) = (of_nat (rights s) :: u32)"
    by (simp add: rights_def sum_list_ucast)
  also have "\<dots> = ucast (s1_total s)" using s by (simp add: fm1_strong_def)
  finally show ?thesis using s
    by (simp add: fm1_invariant_def fm1_strong_def fm1_check_transfers_ok)
qed

text \<open>A step that changes one transfer keeps the invariant when it keeps the balance.\<close>

lemma fm1_strong_transfer:
  assumes "fm1_strong s" and "i < length (s1_transfers s)"
    and "transfer_ok (s1_transfers s ! i) \<Longrightarrow> transfer_ok (f (s1_transfers s ! i))"
    and "unat (s1_u_donor s') + unat (s1_u_receiver s') + unat (x_of (f (s1_transfers s ! i))) =
         unat (s1_u_donor s) + unat (s1_u_receiver s) + unat (x_of (s1_transfers s ! i))"
    and "s1_transfers s' = s1_transfers s" "s1_total s' = s1_total s" "s1_consumed s' = s1_consumed s"
      "s1_replica_spends s' = s1_replica_spends s"
      "s1_spends_after_close s' = s1_spends_after_close s" "s1_revivals s' = s1_revivals s"
  shows "fm1_strong (set_transfer i f s')"
proof -
  have "transfer_ok (s1_transfers s ! i)"
    using assms(1,2) by (simp add: fm1_strong_def list_all_nth)
  moreover have "sum_list (map (\<lambda>t. unat (x_of t)) ((s1_transfers s)[i := f (s1_transfers s ! i)])) +
      unat (x_of (s1_transfers s ! i)) =
    sum_list (map (\<lambda>t. unat (x_of t)) (s1_transfers s)) + unat (x_of (f (s1_transfers s ! i)))"
    by (rule sum_list_map_update [OF assms(2)])
  ultimately show ?thesis using assms
    by (auto simp: fm1_strong_def set_transfer_def rights_def list_all_update)
qed

text \<open>The room the balance leaves in the 8-bit counters.\<close>

lemma fm1_room:
  assumes "fm1_strong s" and "i < length (s1_transfers s)"
  shows "unat (s1_consumed s) + unat (s1_u_donor s) + unat (s1_u_receiver s) +
      unat (x_of (s1_transfers s ! i)) < 256"
proof -
  have "unat (x_of (s1_transfers s ! i)) \<le> sum_list (map (\<lambda>t. unat (x_of t)) (s1_transfers s))"
    using assms(2) by (intro member_le_sum_list) auto
  moreover have "unat (s1_total s) < 256" using unsigned_less [of "s1_total s"] by simp
  ultimately show ?thesis using assms(1) by (simp add: fm1_strong_def rights_def)
qed

lemma unat_u8_plus: "unat a + unat b < 256 \<Longrightarrow> unat (a + b :: u8) = unat a + unat b"
  by (simp add: unat_word_ariths)

lemma fm1_strong_transfer_steps:
  assumes s: "fm1_strong s" and i: "i < length (s1_transfers s)"
    and step: "(l, t) \<in> set (fm1_transfer_steps None s i)"
  shows "fm1_strong t"
proof -
  note room = fm1_room [OF s i]
  have ok: "transfer_ok (s1_transfers s ! i)"
    using s i by (simp add: fm1_strong_def list_all_nth)
  from step show ?thesis
    unfolding fm1_transfer_steps_def Let_def set_append Un_iff mem_guarded prod.inject
    by (elim disjE conjE; hypsubst; intro fm1_strong_transfer [OF s i]; insert ok room)
      (auto simp: transfer_ok_def x_of_def unat_u8_plus unat_sub word_le_nat_alt
        split: donor.splits receiver.splits)
qed

lemma fm1_strong_holder_steps:
  assumes s: "fm1_strong s" and step: "(l, t) \<in> set (fm1_holder_steps None s)"
  shows "fm1_strong t"
proof -
  have "rights s < 256"
    using s unsigned_less [of "s1_total s"] by (simp add: fm1_strong_def)
  then have room: "unat (s1_consumed s) + unat (s1_u_donor s) + unat (s1_u_receiver s) < 256"
    by (simp add: rights_def)
  from step show ?thesis
    unfolding fm1_holder_steps_def set_append Un_iff mem_guarded prod.inject
    by (elim disjE conjE; hypsubst; insert s room)
      (auto simp: fm1_strong_def rights_def unat_u8_plus unat_sub word_le_nat_alt word_less_nat_alt)
qed

lemma fm1_strong_step: "fm1_strong s \<Longrightarrow> (l, t) \<in> set (fm1_next None s) \<Longrightarrow> fm1_strong t"
  by (auto simp: fm1_next_def set_for_each dest: fm1_strong_transfer_steps fm1_strong_holder_steps)

text \<open>The total, the quantities and so the number of transfers never change, under any control.\<close>

definition fm1_frame :: "fm1_state \<Rightarrow> u8 \<times> u8 list" where
  "fm1_frame s = (s1_total s, map tr_q (s1_transfers s))"

lemma fm1_frame_step: "(l, t) \<in> set (fm1_next c s) \<Longrightarrow> fm1_frame t = fm1_frame s"
  by (auto simp: fm1_next_def set_for_each fm1_transfer_steps_def fm1_holder_steps_def Let_def
      set_transfer_def fm1_frame_def map_update list_update_same_conv)

lemma fm1_frame_reachable:
  "reachable (fm1_next c) (fm1_initial tot quantities) s \<Longrightarrow> fm1_frame s = (tot, quantities)"
  by (induction rule: reachable.induct)
    (auto simp: fm1_initial_def fm1_frame_def comp_def dest: fm1_frame_step [unfolded fm1_frame_def])

section \<open>Finiteness\<close>

instance donor :: finite
proof
  have "(UNIV :: donor set) = {DonorAbsent, DonorPrepared, DonorCommitted, DonorAborted}"
    by (auto intro: donor.exhaust)
  then show "finite (UNIV :: donor set)" by (metis finite.emptyI finite_insert)
qed

instance receiver :: finite
proof
  have "(UNIV :: receiver set) = {ReceiverAbsent, ReceiverAccepted, ReceiverApplied, ReceiverAborted}"
    by (auto intro: receiver.exhaust)
  then show "finite (UNIV :: receiver set)" by (metis finite.emptyI finite_insert)
qed

lemma finite_transfer: "finite (UNIV :: transfer set)"
proof (rule finite_imageD)
  let ?f = "\<lambda>t :: transfer. (tr_q t, tr_donor t, tr_receiver t, tr_prepare_sent t, tr_accept_sent t,
    tr_commit_sent t, tr_abort_sent t)"
  show "finite (range ?f)" by (rule finite_subset [OF subset_UNIV finite])
  show "inj ?f" by (rule injI, rule transfer.equality) simp_all
qed

lemma finite_fm1_state: "finite {s :: fm1_state. length (s1_transfers s) = n}"
proof (rule finite_imageD)
  let ?f = "\<lambda>s :: fm1_state. (s1_transfers s, s1_total s, s1_u_donor s, s1_u_receiver s, s1_consumed s,
    s1_donor_closed s, s1_replica_view s, s1_replica_spends s, s1_spends_after_close s, s1_revivals s)"
  have "?f ` {s. length (s1_transfers s) = n} \<subseteq> {ts. set ts \<subseteq> UNIV \<and> length ts = n} \<times> UNIV" by auto
  then show "finite (?f ` {s. length (s1_transfers s) = n})"
    by (rule finite_subset) (intro finite_cartesian_product finite_lists_length_eq finite_transfer finite)
  show "inj_on ?f {s. length (s1_transfers s) = n}" by (rule inj_onI, rule fm1_state.equality) simp_all
qed

lemma finite_fm1_reachable: "finite {s. reachable (fm1_next c) (fm1_initial tot quantities) s}"
proof (rule finite_subset [OF _ finite_fm1_state])
  show "{s. reachable (fm1_next c) (fm1_initial tot quantities) s} \<subseteq>
      {s. length (s1_transfers s) = length quantities}"
    by (auto dest!: fm1_frame_reachable simp: fm1_frame_def)
qed

section \<open>The negative controls\<close>

lemmas fm1_eval = fm1_next_def fm1_initial_def for_each_def fm1_transfer_steps_def
  fm1_holder_steps_def guarded_def set_transfer_def fm1_invariant_def x_of_def Let_def

lemma fm1_control_violates:
  "\<exists>s v. reachable (fm1_next (Some c)) (fm1_initial 3 [1, 2]) s \<and> fm1_invariant s = Inl v" (is "?bad c")
proof -
  let ?deliver = "[DonorPrepare 0, SendPrepare 0, ReceiverAccept 0, SendAccept 0, DonorCommit 0,
    SendCommit 0, ReceiverInstall 0]"
  have "?bad RefundAfterCommit"
    by (rule follow_violation [of _ _ _ "?deliver @ [DonorAbort 0]" "Conservation 3 0 3 1 0"])
      (simp add: fm1_eval)
  moreover have "?bad DoubleInstall"
    by (rule follow_violation [of _ _ _ "?deliver @ [ReceiverInstall 0]" "Conservation 3 0 2 2 0"])
      (simp add: fm1_eval)
  moreover have "?bad NoReplicaFence"
    by (rule follow_violation [of _ _ _ "[CloseDonorAuthority, StaleReplicaSpend]" "Conservation 3 1 3 0 0"])
      (simp add: fm1_eval)
  moreover have "?bad SpendAfterClose"
    by (rule follow_violation [of _ _ _ "[CloseDonorAuthority, SpendDonor]" SpendAfterAuthorityClose])
      (simp add: fm1_eval)
  moreover have "?bad LatePrepareResurrection"
    by (rule follow_violation [of _ _ _ "[DonorPrepare 0, SendPrepare 0, DonorAbort 0, SendAbort 0,
      ReceiverAbort 0, LatePrepareRevives 0]" LatePrepareResurrected]) (simp add: fm1_eval)
  ultimately show ?thesis by (cases c) simp_all
qed

interpretation fm1: checked_model "fm1_next None" "fm1_initial tot quantities" fm1_invariant
    fm1_strong for tot quantities
  by unfold_locales (rule fm1_strong_init fm1_strong_ok | erule (1) fm1_strong_step)+

interpretation fm1_gated: gated_model fm1_next "fm1_initial 3 [1, 2]" fm1_invariant fm1_strong
    fm1_controls
  by (rule gated_model.intro [OF fm1.checked_model_axioms finite_fm1_reachable fm1_control_violates])

section \<open>Properties\<close>

text \<open>C1: in every reachable state of the escrow model without a control, for every total and every
  list of transfer quantities, the checked invariant holds, the total is unchanged and the rights are
  conserved in unbounded arithmetic: consumed, usable at both holders and in flight sum up to the
  total, so no 8-bit counter ever wraps.\<close>

theorem fm1_safe:
  assumes "reachable (fm1_next None) (fm1_initial tot quantities) s"
  shows "fm1_invariant s = Inr () \<and> s1_total s = tot \<and>
    unat (s1_consumed s) + unat (s1_u_donor s) + unat (s1_u_receiver s) +
      (\<Sum>t\<leftarrow>s1_transfers s. unat (x_of t)) = unat tot"
  using fm1.reachable_ok [OF assms] fm1.reachable_strong [OF assms] fm1_frame_reachable [OF assms]
  by (simp add: fm1_strong_def rights_def fm1_frame_def)

theorem fm1_safe_witness:
  "fm1_invariant (fm1_initial 3 [1, 2]) = Inr () \<and> s1_total (fm1_initial 3 [1, 2]) = 3"
  using fm1_safe [OF reachable_init, of 3 "[1, 2]"] by simp

text \<open>C6: the FM-1 gate. From some state budget on, the evidence the gate collects passes the
  verdict: the positive exploration completes without a violation and each of the five negative
  controls produces a counterexample.\<close>

theorem fm1_gate_passes:
  "\<exists>N. \<forall>max_states \<ge> N. \<exists>ev. fm1_evidence max_states = Some ev \<and> verdict ev = Inr ()"
  unfolding fm1_evidence_def fm1_run_def by (rule fm1_gated.gate_passes)

theorem fm1_gate_passes_witness:
  "\<exists>max_states ev. fm1_evidence max_states = Some ev \<and> verdict ev = Inr ()"
  using fm1_gate_passes by blast

end
