(* ===== verification/FM2.thy ===== *)
theory FM2
  imports Explore
begin

text \<open>
  FM-2, the C5 decision authority (\<^verbatim>\<open>src/crates/carolina-models/src/fm2.rs\<close>): prepare, unique
  decision, install, publication and completion over any number of participants. The invariant is
  proved for every number of participants and each negative control is shown to reach a violation.
\<close>

section \<open>The model\<close>

datatype decision = DecBegun | DecCommit | DecAbort

datatype part_phase =
  PartIdle | PartPrepared | PartVotedNo | PartInstalled | PartPublished | PartAborted

record participant =
  pa_phase :: part_phase
  pa_payload_present :: bool
  pa_prepare_sent :: bool
  pa_vote_sent :: bool
  pa_installed_sent :: bool
  pa_seen_sent :: bool

record fm2_state =
  s2_decision :: decision
  s2_ever_commit :: bool
  s2_ever_abort :: bool
  s2_decided_by_epoch :: u8
  s2_stale_decision :: bool
  s2_leader_epoch :: u8
  s2_stale_leader_alive :: bool
  s2_commit_sent :: bool
  s2_abort_sent :: bool
  s2_publication_sent :: bool
  s2_completion_sent :: bool
  s2_success_reported :: bool
  s2_participants :: "participant list"
  s2_timeout_aborts :: u8

datatype fm2_control =
    CommitWithoutAllVotes
  | ParticipantAbortsOnTimeout
  | StaleLeaderDecides
  | PublishOnInstall
  | GcPreparedPayload
  | AbortAfterCommit

datatype fm2_label =
    PartSendPrepare nat | VoteYes nat | VoteNo nat | SendVote nat | PartInstall nat
  | SendInstalled nat | PartPublish nat | SendPublishSeen nat | ParticipantAbort nat
  | TimeoutAbort nat | GcPrepared nat
  | DecideCommit | DecideAbortNoVote | DecideAbortDeadline | AbortReplacesCommit
  | StaleLeaderDecidesCommit | AuthoritySendCommit | AuthoritySendAbort
  | IssuePublicationCertificate | IssueCompletionCertificate | ReportFinalSuccess | LeaderFailover

datatype fm2_violation =
    MoreThanOneDecision
  | CommitWithoutYes
  | StaleAuthorityDecided
  | PublishedWithoutCommit
  | PublishedWithoutCertificate
  | PartialPublicTransaction
  | CertificateWithoutInstalled
  | SuccessBeforeCompletion
  | CompletionWithoutSeen
  | AbortInferredFromTimeout
  | AbortedWithoutDecision nat
  | CommittedLostPayload nat

definition installed_or_published :: "participant \<Rightarrow> bool" where
  "installed_or_published p \<longleftrightarrow> pa_phase p \<in> {PartInstalled, PartPublished}"

fun fm2_check_participants :: "decision \<Rightarrow> nat \<Rightarrow> participant list \<Rightarrow> fm2_violation + unit" where
  "fm2_check_participants d i [] = Inr ()"
| "fm2_check_participants d i (p # ps) =
     (if pa_phase p = PartAborted \<and> d \<noteq> DecAbort then Inl (AbortedWithoutDecision i)
      else if d = DecCommit \<and> pa_phase p = PartPrepared \<and> \<not> pa_payload_present p
      then Inl (CommittedLostPayload i)
      else fm2_check_participants d (Suc i) ps)"

definition fm2_invariant :: "fm2_state \<Rightarrow> fm2_violation + unit" where
  "fm2_invariant s =
     (let ps = s2_participants s;
          any_published = list_ex (\<lambda>p. pa_phase p = PartPublished) ps
      in if s2_ever_commit s \<and> s2_ever_abort s then Inl MoreThanOneDecision
         else if s2_decision s = DecCommit \<and>
             list_ex (\<lambda>p. \<not> pa_vote_sent p \<or> pa_phase p = PartVotedNo \<or> pa_phase p = PartIdle) ps
         then Inl CommitWithoutYes
         else if s2_stale_decision s then Inl StaleAuthorityDecided
         else if any_published \<and> s2_decision s \<noteq> DecCommit then Inl PublishedWithoutCommit
         else if any_published \<and> \<not> s2_publication_sent s then Inl PublishedWithoutCertificate
         else if any_published \<and> list_ex (\<lambda>p. \<not> installed_or_published p) ps
         then Inl PartialPublicTransaction
         else if s2_publication_sent s \<and> list_ex (\<lambda>p. \<not> installed_or_published p) ps
         then Inl CertificateWithoutInstalled
         else if s2_success_reported s \<and> \<not> s2_completion_sent s then Inl SuccessBeforeCompletion
         else if s2_completion_sent s \<and> list_ex (\<lambda>p. pa_phase p \<noteq> PartPublished) ps
         then Inl CompletionWithoutSeen
         else if 0 < s2_timeout_aborts s then Inl AbortInferredFromTimeout
         else fm2_check_participants (s2_decision s) 0 ps)"

definition set_participant :: "nat \<Rightarrow> (participant \<Rightarrow> participant) \<Rightarrow> fm2_state \<Rightarrow> fm2_state" where
  "set_participant i f s =
     s\<lparr>s2_participants := (s2_participants s)[i := f (s2_participants s ! i)]\<rparr>"

definition fm2_participant_steps ::
  "fm2_control option \<Rightarrow> fm2_state \<Rightarrow> nat \<Rightarrow> (fm2_label \<times> fm2_state) list" where
  "fm2_participant_steps control s i =
     (let p = s2_participants s ! i
      in guarded (\<not> pa_prepare_sent p)
           (PartSendPrepare i, set_participant i (\<lambda>p. p\<lparr>pa_prepare_sent := True\<rparr>) s) @
         guarded (pa_prepare_sent p \<and> pa_phase p = PartIdle)
           (VoteYes i, set_participant i
              (\<lambda>p. p\<lparr>pa_phase := PartPrepared, pa_payload_present := True\<rparr>) s) @
         guarded (pa_prepare_sent p \<and> pa_phase p = PartIdle)
           (VoteNo i, set_participant i (\<lambda>p. p\<lparr>pa_phase := PartVotedNo\<rparr>) s) @
         guarded (pa_phase p \<in> {PartPrepared, PartVotedNo} \<and> \<not> pa_vote_sent p)
           (SendVote i, set_participant i (\<lambda>p. p\<lparr>pa_vote_sent := True\<rparr>) s) @
         guarded (s2_commit_sent s \<and> pa_phase p = PartPrepared \<and> pa_payload_present p)
           (PartInstall i, set_participant i (\<lambda>p. p\<lparr>pa_phase := PartInstalled\<rparr>) s) @
         guarded (pa_phase p = PartInstalled \<and> \<not> pa_installed_sent p)
           (SendInstalled i, set_participant i (\<lambda>p. p\<lparr>pa_installed_sent := True\<rparr>) s) @
         guarded (pa_phase p = PartInstalled \<and>
             (s2_publication_sent s \<or> control = Some PublishOnInstall))
           (PartPublish i, set_participant i (\<lambda>p. p\<lparr>pa_phase := PartPublished\<rparr>) s) @
         guarded (pa_phase p = PartPublished \<and> \<not> pa_seen_sent p)
           (SendPublishSeen i, set_participant i (\<lambda>p. p\<lparr>pa_seen_sent := True\<rparr>) s) @
         guarded (s2_abort_sent s \<and> pa_phase p \<in> {PartPrepared, PartVotedNo, PartIdle})
           (ParticipantAbort i, set_participant i
              (\<lambda>p. p\<lparr>pa_phase := PartAborted, pa_payload_present := False\<rparr>) s) @
         guarded (control = Some ParticipantAbortsOnTimeout \<and> pa_phase p = PartPrepared \<and>
             s2_decision s = DecBegun)
           (TimeoutAbort i, set_participant i
              (\<lambda>p. p\<lparr>pa_phase := PartAborted, pa_payload_present := False\<rparr>)
              (s\<lparr>s2_timeout_aborts := s2_timeout_aborts s + 1\<rparr>)) @
         guarded (control = Some GcPreparedPayload \<and> pa_phase p = PartPrepared \<and>
             pa_payload_present p \<and> s2_decision s = DecBegun)
           (GcPrepared i, set_participant i (\<lambda>p. p\<lparr>pa_payload_present := False\<rparr>) s))"

definition fm2_decision_steps ::
  "fm2_control option \<Rightarrow> fm2_state \<Rightarrow> (fm2_label \<times> fm2_state) list" where
  "fm2_decision_steps control s =
     (let ps = s2_participants s;
          all_yes = list_all (\<lambda>p. pa_phase p = PartPrepared \<and> pa_vote_sent p) ps \<or>
            list_all (\<lambda>p. pa_phase p \<in> {PartPrepared, PartInstalled, PartPublished} \<and>
              pa_vote_sent p) ps;
          some_no = list_ex (\<lambda>p. pa_phase p = PartVotedNo \<and> pa_vote_sent p) ps;
          commit_allowed = s2_decision s = DecBegun \<and>
            (all_yes \<or> control = Some CommitWithoutAllVotes \<and>
              list_ex (\<lambda>p. pa_phase p = PartPrepared \<and> pa_vote_sent p) ps)
      in guarded commit_allowed
           (DecideCommit, s\<lparr>s2_decision := DecCommit, s2_ever_commit := True,
              s2_decided_by_epoch := s2_leader_epoch s\<rparr>) @
         guarded (s2_decision s = DecBegun)
           (if some_no then DecideAbortNoVote else DecideAbortDeadline,
            s\<lparr>s2_decision := DecAbort, s2_ever_abort := True,
              s2_decided_by_epoch := s2_leader_epoch s\<rparr>) @
         guarded (control = Some AbortAfterCommit \<and> s2_decision s = DecCommit)
           (AbortReplacesCommit, s\<lparr>s2_decision := DecAbort, s2_ever_abort := True\<rparr>) @
         guarded (control = Some StaleLeaderDecides \<and> s2_stale_leader_alive s \<and>
             s2_decision s = DecBegun)
           (StaleLeaderDecidesCommit, s\<lparr>s2_decision := DecCommit, s2_ever_commit := True,
              s2_decided_by_epoch := 1, s2_stale_decision := True\<rparr>))"

definition fm2_authority_steps ::
  "fm2_control option \<Rightarrow> fm2_state \<Rightarrow> (fm2_label \<times> fm2_state) list" where
  "fm2_authority_steps control s =
     guarded (s2_decision s = DecCommit \<and> \<not> s2_commit_sent s)
       (AuthoritySendCommit, s\<lparr>s2_commit_sent := True\<rparr>) @
     guarded (s2_decision s = DecAbort \<and> \<not> s2_abort_sent s)
       (AuthoritySendAbort, s\<lparr>s2_abort_sent := True\<rparr>) @
     guarded (s2_decision s = DecCommit \<and> \<not> s2_publication_sent s \<and>
         list_all pa_installed_sent (s2_participants s))
       (IssuePublicationCertificate, s\<lparr>s2_publication_sent := True\<rparr>) @
     guarded (s2_publication_sent s \<and> \<not> s2_completion_sent s \<and>
         list_all pa_seen_sent (s2_participants s))
       (IssueCompletionCertificate, s\<lparr>s2_completion_sent := True\<rparr>) @
     guarded (\<not> s2_success_reported s \<and>
         (s2_completion_sent s \<or> control = Some PublishOnInstall \<and> s2_publication_sent s))
       (ReportFinalSuccess, s\<lparr>s2_success_reported := True\<rparr>) @
     guarded (s2_leader_epoch s = 1)
       (LeaderFailover, s\<lparr>s2_leader_epoch := 2, s2_stale_leader_alive := True\<rparr>)"

definition fm2_next :: "fm2_control option \<Rightarrow> fm2_state \<Rightarrow> (fm2_label \<times> fm2_state) list" where
  "fm2_next control s =
     for_each (length (s2_participants s)) (fm2_participant_steps control s) @
     fm2_decision_steps control s @ fm2_authority_steps control s"

definition fm2_initial :: "nat \<Rightarrow> fm2_state" where
  "fm2_initial participants =
     \<lparr>s2_decision = DecBegun, s2_ever_commit = False, s2_ever_abort = False,
      s2_decided_by_epoch = 0, s2_stale_decision = False, s2_leader_epoch = 1,
      s2_stale_leader_alive = False, s2_commit_sent = False, s2_abort_sent = False,
      s2_publication_sent = False, s2_completion_sent = False, s2_success_reported = False,
      s2_participants = replicate participants
        \<lparr>pa_phase = PartIdle, pa_payload_present = False, pa_prepare_sent = False,
         pa_vote_sent = False, pa_installed_sent = False, pa_seen_sent = False\<rparr>,
      s2_timeout_aborts = 0\<rparr>"

definition fm2_describe ::
  "fm2_state \<Rightarrow> decision \<times> u8 \<times> bool \<times> bool \<times> bool \<times> (part_phase \<times> bool) list" where
  "fm2_describe s = (s2_decision s, s2_leader_epoch s, s2_publication_sent s, s2_completion_sent s,
     s2_success_reported s, map (\<lambda>p. (pa_phase p, pa_payload_present p)) (s2_participants s))"

definition fm2_run :: "nat \<Rightarrow> fm2_control option \<Rightarrow> nat \<Rightarrow> _" where
  "fm2_run participants control max_states =
     explore ''FM-2'' (participants, control) (fm2_initial participants)
       (fm2_next control) fm2_invariant fm2_describe max_states"

definition fm2_controls :: "fm2_control list" where
  "fm2_controls = [CommitWithoutAllVotes, ParticipantAbortsOnTimeout, StaleLeaderDecides,
     PublishOnInstall, GcPreparedPayload, AbortAfterCommit]"

definition fm2_evidence :: "nat \<Rightarrow> _" where
  "fm2_evidence max_states =
     collect_evidence ''FM-2'' (\<lambda>c. fm2_run 2 c max_states) fm2_controls"

section \<open>The inductive invariant\<close>

text \<open>
  What the decision, the certificates and a participant's durable phase say about each other. It is
  a predicate on the participant and on the authority's flags, which are the same for all of them.
\<close>

definition part_ok :: "decision \<Rightarrow> bool \<Rightarrow> bool \<Rightarrow> participant \<Rightarrow> bool" where
  "part_ok d publication completion p \<longleftrightarrow>
     (case pa_phase p of
        PartPublished \<Rightarrow> d = DecCommit \<and> pa_vote_sent p \<and> publication
      | PartInstalled \<Rightarrow> d = DecCommit \<and> pa_vote_sent p \<and> \<not> pa_seen_sent p \<and> \<not> completion
      | ph \<Rightarrow> \<not> pa_installed_sent p \<and> \<not> pa_seen_sent p \<and> \<not> publication \<and> \<not> completion \<and>
          (case ph of
             PartPrepared \<Rightarrow> pa_payload_present p \<and> (d = DecCommit \<longrightarrow> pa_vote_sent p)
           | PartAborted \<Rightarrow> d = DecAbort
           | _ \<Rightarrow> d \<noteq> DecCommit))"

definition authority_ok :: "fm2_state \<Rightarrow> bool" where
  "authority_ok s \<longleftrightarrow>
     (s2_commit_sent s \<or> s2_ever_commit s \<or> s2_publication_sent s \<longrightarrow> s2_decision s = DecCommit) \<and>
     (s2_abort_sent s \<or> s2_ever_abort s \<longrightarrow> s2_decision s = DecAbort) \<and>
     (s2_success_reported s \<longrightarrow> s2_completion_sent s) \<and>
     \<not> s2_stale_decision s \<and> s2_timeout_aborts s = 0"

definition fm2_strong :: "fm2_state \<Rightarrow> bool" where
  "fm2_strong s \<longleftrightarrow> authority_ok s \<and>
     list_all (part_ok (s2_decision s) (s2_publication_sent s) (s2_completion_sent s))
       (s2_participants s)"

lemma fm2_strong_init: "fm2_strong (fm2_initial n)"
  by (simp add: fm2_strong_def authority_ok_def fm2_initial_def part_ok_def list_all_iff)

lemma fm2_check_participants_ok:
  "list_all (part_ok d pub done) ps \<Longrightarrow> fm2_check_participants d i ps = Inr ()"
  by (induction d i ps rule: fm2_check_participants.induct) (auto simp: part_ok_def split: part_phase.splits)

lemma fm2_strong_ok:
  assumes "fm2_strong s"
  shows "fm2_invariant s = Inr ()"
proof -
  let ?ps = "s2_participants s"
  have a: "authority_ok s" and
    p: "list_all (part_ok (s2_decision s) (s2_publication_sent s) (s2_completion_sent s)) ?ps"
    using assms by (auto simp: fm2_strong_def)
  have each: "part_ok (s2_decision s) (s2_publication_sent s) (s2_completion_sent s) p" if "p \<in> set ?ps" for p
    using p that by (simp add: list_all_iff)
  have "\<not> (s2_decision s = DecCommit \<and>
      list_ex (\<lambda>p. \<not> pa_vote_sent p \<or> pa_phase p = PartVotedNo \<or> pa_phase p = PartIdle) ?ps)"
    by (auto simp: list_ex_iff part_ok_def dest!: each split: part_phase.splits)
  moreover have "\<not> (list_ex (\<lambda>p. pa_phase p = PartPublished) ?ps \<and> s2_decision s \<noteq> DecCommit)"
    "\<not> (list_ex (\<lambda>p. pa_phase p = PartPublished) ?ps \<and> \<not> s2_publication_sent s)"
    by (auto simp: list_ex_iff part_ok_def dest!: each)
  moreover have cert: "\<not> (s2_publication_sent s \<and> list_ex (\<lambda>p. \<not> installed_or_published p) ?ps)"
    by (auto simp: list_ex_iff part_ok_def installed_or_published_def dest!: each split: part_phase.splits)
  moreover have "\<not> (list_ex (\<lambda>p. pa_phase p = PartPublished) ?ps \<and>
      list_ex (\<lambda>p. \<not> installed_or_published p) ?ps)"
    using calculation by metis
  moreover have "\<not> (s2_completion_sent s \<and> list_ex (\<lambda>p. pa_phase p \<noteq> PartPublished) ?ps)"
    by (auto simp: list_ex_iff part_ok_def dest!: each split: part_phase.splits)
  moreover have "\<not> (s2_ever_commit s \<and> s2_ever_abort s)" "\<not> s2_stale_decision s"
    "\<not> (s2_success_reported s \<and> \<not> s2_completion_sent s)" "\<not> 0 < s2_timeout_aborts s"
    using a by (auto simp: authority_ok_def)
  ultimately show ?thesis using fm2_check_participants_ok [OF p, of 0]
    unfolding fm2_invariant_def Let_def by (simp only: if_False)
qed

lemma fm2_strong_participant:
  assumes "fm2_strong s" "i < length (s2_participants s)"
    and "authority_ok s \<Longrightarrow>
      part_ok (s2_decision s) (s2_publication_sent s) (s2_completion_sent s) (s2_participants s ! i) \<Longrightarrow>
      part_ok (s2_decision s) (s2_publication_sent s) (s2_completion_sent s) (f (s2_participants s ! i))"
  shows "fm2_strong (set_participant i f s)"
  using assms by (simp add: fm2_strong_def set_participant_def list_all_update list_all_nth authority_ok_def)

lemma fm2_strong_participant_steps:
  "(l, t) \<in> set (fm2_participant_steps None s i) \<Longrightarrow> fm2_strong s \<Longrightarrow> i < length (s2_participants s) \<Longrightarrow>
   fm2_strong t"
  unfolding fm2_participant_steps_def Let_def set_append Un_iff mem_guarded prod.inject
  by (elim disjE conjE; hypsubst; (erule (1) fm2_strong_participant)?)
    (simp_all add: part_ok_def authority_ok_def split: part_phase.split_asm)

lemma fm2_strong_decision_steps:
  "(l, t) \<in> set (fm2_decision_steps None s) \<Longrightarrow> fm2_strong s \<Longrightarrow> fm2_strong t"
  unfolding fm2_decision_steps_def Let_def set_append Un_iff mem_guarded prod.inject
  by (elim disjE conjE; hypsubst)
    (simp_all add: fm2_strong_def authority_ok_def list_all_iff part_ok_def split: part_phase.splits)

lemma fm2_strong_authority_steps:
  "(l, t) \<in> set (fm2_authority_steps None s) \<Longrightarrow> fm2_strong s \<Longrightarrow> fm2_strong t"
  unfolding fm2_authority_steps_def Let_def set_append Un_iff mem_guarded prod.inject
  by (elim disjE conjE; hypsubst)
    (simp_all add: fm2_strong_def authority_ok_def list_all_iff part_ok_def split: part_phase.splits)

lemma fm2_strong_step: "fm2_strong s \<Longrightarrow> (l, t) \<in> set (fm2_next None s) \<Longrightarrow> fm2_strong t"
  unfolding fm2_next_def set_append Un_iff set_for_each
  by (elim disjE exE conjE)
    (blast dest: fm2_strong_participant_steps fm2_strong_decision_steps fm2_strong_authority_steps)+

section \<open>Finiteness\<close>

lemma fm2_participants_step:
  "(l, t) \<in> set (fm2_next c s) \<Longrightarrow> length (s2_participants t) = length (s2_participants s)"
  unfolding fm2_next_def set_append Un_iff set_for_each fm2_participant_steps_def
    fm2_decision_steps_def fm2_authority_steps_def Let_def mem_guarded prod.inject
  by (elim disjE exE conjE; hypsubst) (simp_all add: set_participant_def)

lemma fm2_participants_reachable:
  "reachable (fm2_next c) (fm2_initial n) s \<Longrightarrow> length (s2_participants s) = n"
  by (induction rule: reachable.induct) (simp_all add: fm2_initial_def fm2_participants_step)

instance decision :: finite
proof
  have "(UNIV :: decision set) = {DecBegun, DecCommit, DecAbort}" by (auto intro: decision.exhaust)
  then show "finite (UNIV :: decision set)" by (metis finite.emptyI finite_insert)
qed

instance part_phase :: finite
proof
  have "(UNIV :: part_phase set) =
      {PartIdle, PartPrepared, PartVotedNo, PartInstalled, PartPublished, PartAborted}"
    by (auto intro: part_phase.exhaust)
  then show "finite (UNIV :: part_phase set)" by (metis finite.emptyI finite_insert)
qed

lemma finite_participant: "finite (UNIV :: participant set)"
proof (rule finite_imageD)
  let ?f = "\<lambda>p :: participant. (pa_phase p, pa_payload_present p, pa_prepare_sent p, pa_vote_sent p,
    pa_installed_sent p, pa_seen_sent p)"
  show "finite (range ?f)" by (rule finite_subset [OF subset_UNIV finite])
  show "inj ?f" by (rule injI, rule participant.equality) simp_all
qed

lemma finite_fm2_state: "finite {s :: fm2_state. length (s2_participants s) = n}"
proof (rule finite_imageD)
  let ?f = "\<lambda>s :: fm2_state. (s2_participants s, s2_decision s, s2_ever_commit s, s2_ever_abort s,
    s2_decided_by_epoch s, s2_stale_decision s, s2_leader_epoch s, s2_stale_leader_alive s,
    s2_commit_sent s, s2_abort_sent s, s2_publication_sent s, s2_completion_sent s,
    s2_success_reported s, s2_timeout_aborts s)"
  have "?f ` {s. length (s2_participants s) = n} \<subseteq> {ts. set ts \<subseteq> UNIV \<and> length ts = n} \<times> UNIV" by auto
  then show "finite (?f ` {s. length (s2_participants s) = n})"
    by (rule finite_subset) (intro finite_cartesian_product finite_lists_length_eq finite_participant finite)
  show "inj_on ?f {s. length (s2_participants s) = n}"
    by (rule inj_onI, rule fm2_state.equality) simp_all
qed

lemma finite_fm2_reachable: "finite {s. reachable (fm2_next c) (fm2_initial n) s}"
  by (rule finite_subset [OF _ finite_fm2_state [of n]]) (auto dest: fm2_participants_reachable)

section \<open>The negative controls\<close>

lemmas fm2_eval = fm2_next_def fm2_initial_def for_each_def fm2_participant_steps_def
  fm2_decision_steps_def fm2_authority_steps_def guarded_def set_participant_def fm2_invariant_def
  installed_or_published_def Let_def numeral_2_eq_2

lemma fm2_control_violates:
  "\<exists>s v. reachable (fm2_next (Some c)) (fm2_initial 2) s \<and> fm2_invariant s = Inl v" (is "?bad c")
proof -
  let ?prep = "[PartSendPrepare 0, VoteYes 0, SendVote 0]"
  let ?prepared = "?prep @ [PartSendPrepare 1, VoteYes 1, SendVote 1]"
  have "?bad CommitWithoutAllVotes"
    by (rule follow_violation [of _ _ _ "?prep @ [DecideCommit]" CommitWithoutYes]) (simp add: fm2_eval)
  moreover have "?bad ParticipantAbortsOnTimeout"
    by (rule follow_violation [of _ _ _ "?prep @ [TimeoutAbort 0]" AbortInferredFromTimeout])
      (simp add: fm2_eval)
  moreover have "?bad StaleLeaderDecides"
    by (rule follow_violation [of _ _ _ "?prepared @ [LeaderFailover, StaleLeaderDecidesCommit]"
      StaleAuthorityDecided]) (simp add: fm2_eval)
  moreover have "?bad PublishOnInstall"
    by (rule follow_violation [of _ _ _ "?prepared @ [DecideCommit, AuthoritySendCommit, PartInstall 0,
      PartPublish 0]" PublishedWithoutCertificate]) (simp add: fm2_eval)
  moreover have "?bad GcPreparedPayload"
    by (rule follow_violation [of _ _ _ "?prepared @ [GcPrepared 0, DecideCommit]" "CommittedLostPayload 0"])
      (simp add: fm2_eval)
  moreover have "?bad AbortAfterCommit"
    by (rule follow_violation [of _ _ _ "?prepared @ [DecideCommit, AbortReplacesCommit]"
      MoreThanOneDecision]) (simp add: fm2_eval)
  ultimately show ?thesis by (cases c) simp_all
qed

interpretation fm2: checked_model "fm2_next None" "fm2_initial n" fm2_invariant fm2_strong for n
  by unfold_locales (rule fm2_strong_init fm2_strong_ok | erule (1) fm2_strong_step)+

interpretation fm2_gated: gated_model fm2_next "fm2_initial 2" fm2_invariant fm2_strong fm2_controls
  by (rule gated_model.intro [OF fm2.checked_model_axioms finite_fm2_reachable fm2_control_violates])

section \<open>Properties\<close>

lemma fm2_decision_step:
  "(l, t) \<in> set (fm2_next None s) \<Longrightarrow> s2_decision s \<noteq> DecBegun \<Longrightarrow> s2_decision t = s2_decision s"
  unfolding fm2_next_def set_append Un_iff set_for_each fm2_participant_steps_def
    fm2_decision_steps_def fm2_authority_steps_def Let_def mem_guarded prod.inject
  by (elim disjE exE conjE; hypsubst) (simp_all add: set_participant_def)

text \<open>C2: in every reachable state of the decision model without a control, for every number of
  participants, the checked invariant holds. Spelled out for the atomic outcome: if any participant
  has published, then the authority has decided commit, the publication certificate was issued, and
  every participant has voted and is installed or published.\<close>

theorem fm2_safe:
  assumes "reachable (fm2_next None) (fm2_initial n) s"
  shows "fm2_invariant s = Inr () \<and>
    (\<forall>p \<in> set (s2_participants s). pa_phase p = PartPublished \<longrightarrow>
       s2_decision s = DecCommit \<and> s2_publication_sent s \<and>
       (\<forall>q \<in> set (s2_participants s). pa_vote_sent q \<and> pa_phase q \<in> {PartInstalled, PartPublished}))"
proof -
  from fm2.reachable_strong [OF assms] have
    *: "part_ok (s2_decision s) (s2_publication_sent s) (s2_completion_sent s) x"
    if "x \<in> set (s2_participants s)" for x
    using that by (simp add: fm2_strong_def list_all_iff)
  have "s2_decision s = DecCommit \<and> s2_publication_sent s \<and> pa_vote_sent q \<and>
      pa_phase q \<in> {PartInstalled, PartPublished}"
    if "p \<in> set (s2_participants s)" "pa_phase p = PartPublished" "q \<in> set (s2_participants s)" for p q
    using * [OF that(1)] * [OF that(3)] that(2) by (simp add: part_ok_def split: part_phase.splits)
  with fm2.reachable_ok [OF assms] show ?thesis by blast
qed

text \<open>A complete run of one transaction over two participants.\<close>

definition fm2_happy_run :: "fm2_label list" where
  "fm2_happy_run =
     [PartSendPrepare 0, VoteYes 0, SendVote 0, PartSendPrepare 1, VoteYes 1, SendVote 1,
      DecideCommit, AuthoritySendCommit, PartInstall 0, PartInstall 1, SendInstalled 0, SendInstalled 1,
      IssuePublicationCertificate, PartPublish 0, PartPublish 1, SendPublishSeen 0, SendPublishSeen 1,
      IssueCompletionCertificate, ReportFinalSuccess]"

lemma fm2_happy_state:
  "\<exists>s. follow (fm2_next None) (fm2_initial 2) fm2_happy_run = Some s \<and> s2_success_reported s \<and>
     s2_decision s = DecCommit \<and> (\<exists>p \<in> set (s2_participants s). pa_phase p = PartPublished)"
  by (simp add: fm2_happy_run_def fm2_eval)

theorem fm2_safe_witness:
  "\<exists>s. reachable (fm2_next None) (fm2_initial 2) s \<and> s2_success_reported s \<and> fm2_invariant s = Inr () \<and>
     (\<forall>q \<in> set (s2_participants s). pa_vote_sent q \<and> pa_phase q \<in> {PartInstalled, PartPublished})"
proof -
  obtain s p where s: "follow (fm2_next None) (fm2_initial 2) fm2_happy_run = Some s"
    "s2_success_reported s" and p: "p \<in> set (s2_participants s)" "pa_phase p = PartPublished"
    using fm2_happy_state by blast
  note r = follow_reachable [OF s(1) reachable_init]
  from fm2_safe [OF r] p s(2) r show ?thesis by blast
qed

text \<open>C9: the decision is unique and final: once the authority has decided, every state reachable
  from there, over any number of steps, carries the same decision.\<close>

theorem fm2_decision_final:
  assumes "reachable (fm2_next None) s t" and "s2_decision s \<noteq> DecBegun"
  shows "s2_decision t = s2_decision s"
  using assms by (induction rule: reachable.induct) (auto dest: fm2_decision_step)

definition fm2_committed :: fm2_state where
  "fm2_committed = (fm2_initial 2)\<lparr>s2_decision := DecCommit\<rparr>"

theorem fm2_decision_final_witness:
  "reachable (fm2_next None) fm2_committed (fm2_committed\<lparr>s2_commit_sent := True\<rparr>) \<and>
   s2_decision (fm2_committed\<lparr>s2_commit_sent := True\<rparr>) = DecCommit"
proof -
  have "(AuthoritySendCommit, fm2_committed\<lparr>s2_commit_sent := True\<rparr>) \<in> set (fm2_next None fm2_committed)"
    by (simp add: fm2_next_def fm2_authority_steps_def fm2_initial_def fm2_committed_def)
  then have "reachable (fm2_next None) fm2_committed (fm2_committed\<lparr>s2_commit_sent := True\<rparr>)"
    by (rule reachable_step [OF reachable_init])
  with fm2_decision_final [OF this] show ?thesis by (simp add: fm2_committed_def)
qed

text \<open>C7: the FM-2 gate. From some state budget on, the positive exploration with two participants
  completes without a violation and each of the six negative controls produces a counterexample.\<close>

theorem fm2_gate_passes:
  "\<exists>N. \<forall>max_states \<ge> N. \<exists>ev. fm2_evidence max_states = Some ev \<and> verdict ev = Inr ()"
  unfolding fm2_evidence_def fm2_run_def by (rule fm2_gated.gate_passes)

theorem fm2_gate_passes_witness:
  "\<exists>max_states ev. fm2_evidence max_states = Some ev \<and> verdict ev = Inr ()"
  using fm2_gate_passes by blast

end
