(* ===== verification/FM3.thy ===== *)
theory FM3
  imports Explore
begin

text \<open>
  FM-3, migration and fencing (\<^verbatim>\<open>src/crates/carolina-models/src/fm3.rs\<close>): sources that are
  fenced, drained and certified before a target is installed and activated, two workers that hold
  compare-and-set claims, offline sources and supersession. The invariant is proved for every number
  of sources and each negative control is shown to reach a violation.
\<close>

section \<open>The model\<close>

datatype mig_phase =
    MigProposed | MigClosing | MigDraining | MigInstalling | MigActive | MigRetired | MigCancelled

record source =
  so_admitting :: bool
  so_fenced :: bool
  so_fence_epoch :: u8
  so_offline :: bool
  so_pending :: u8
  so_close_cert :: bool

record fm3_state =
  s3_phase :: mig_phase
  s3_catalog_revision :: u8
  s3_worker_claims :: "u8 list"
  s3_sources :: "source list"
  s3_target_installed :: bool
  s3_target_admitting :: bool
  s3_produced_results :: u8
  s3_retained_results :: u8
  s3_late_admissions :: u8
  s3_reopened_same_epoch :: u8

datatype fm3_control =
    ActivateWithOfflineSource
  | StaleWorkerAdvances
  | RollbackFence
  | LatePacketAdmitted
  | RetireDropsResults

datatype fm3_label =
    WorkerClaim nat | StartClosing nat | CancelMigration nat | StartDraining nat
  | CancelWithRollback nat | DrainComplete nat | InstallTarget nat | Activate nat | Retire nat
  | Supersede nat | StaleActivate nat
  | AdmitOld nat | LatePacketAdmits nat | ResolveOld nat | FenceSource nat | CloseCertificate nat
  | SourceOffline nat | SourceBack nat

datatype fm3_violation =
    OverlappingAuthorities
  | ReopenedSameEpoch
  | ResultNotResolvable
  | ActivatedWithoutCloseCert
  | ActivatedWithoutInstall
  | ActivatedUndrained
  | LatePacketAfterFence
  | AdmitsWhileFenced nat

definition MAX_PENDING :: u8 where
  "MAX_PENDING = 1"

definition MAX_ADMISSIONS :: u8 where
  "MAX_ADMISSIONS = 2"

fun fm3_check_sources :: "nat \<Rightarrow> source list \<Rightarrow> fm3_violation + unit" where
  "fm3_check_sources i [] = Inr ()"
| "fm3_check_sources i (x # xs) =
     (if so_fenced x \<and> so_admitting x then Inl (AdmitsWhileFenced i)
      else fm3_check_sources (Suc i) xs)"

definition fm3_invariant :: "fm3_state \<Rightarrow> fm3_violation + unit" where
  "fm3_invariant s =
     (let active = s3_phase s = MigActive \<or> s3_phase s = MigRetired
      in if s3_target_admitting s \<and> list_ex so_admitting (s3_sources s) then Inl OverlappingAuthorities
         else if 0 < s3_reopened_same_epoch s then Inl ReopenedSameEpoch
         else if s3_retained_results s \<noteq> s3_produced_results s then Inl ResultNotResolvable
         else if active \<and> list_ex (\<lambda>x. \<not> so_close_cert x) (s3_sources s)
         then Inl ActivatedWithoutCloseCert
         else if active \<and> \<not> s3_target_installed s then Inl ActivatedWithoutInstall
         else if active \<and> list_ex (\<lambda>x. 0 < so_pending x) (s3_sources s) then Inl ActivatedUndrained
         else if 0 < s3_late_admissions s then Inl LatePacketAfterFence
         else fm3_check_sources 0 (s3_sources s))"

text \<open>A worker advances only with a non-empty claim equal to the catalog's current revision.\<close>

definition current_claim :: "fm3_state \<Rightarrow> nat \<Rightarrow> bool" where
  "current_claim s w \<longleftrightarrow>
     s3_worker_claims s ! w \<noteq> 0 \<and> s3_worker_claims s ! w = s3_catalog_revision s"

definition fm3_claim_steps :: "fm3_state \<Rightarrow> nat \<Rightarrow> (fm3_label \<times> fm3_state) list" where
  "fm3_claim_steps s w =
     guarded (\<not> current_claim s w \<and> s3_catalog_revision s < 3)
       (WorkerClaim w, s\<lparr>s3_catalog_revision := s3_catalog_revision s + 1,
          s3_worker_claims := (s3_worker_claims s)[w := s3_catalog_revision s + 1]\<rparr>)"

definition rollback_source :: "source \<Rightarrow> source" where
  "rollback_source x = (if so_fenced x then x\<lparr>so_fenced := False, so_admitting := True\<rparr> else x)"

definition supersede_source :: "source \<Rightarrow> source" where
  "supersede_source x =
     (if so_fenced x
      then x\<lparr>so_fence_epoch := so_fence_epoch x + 1, so_fenced := False, so_admitting := True,
             so_close_cert := False\<rparr>
      else x)"

definition fm3_phase_steps ::
  "fm3_control option \<Rightarrow> fm3_state \<Rightarrow> nat \<Rightarrow> (fm3_label \<times> fm3_state) list" where
  "fm3_phase_steps control s w =
     (let relaxed = control = Some ActivateWithOfflineSource
      in case s3_phase s of
           MigProposed \<Rightarrow>
             [(StartClosing w, s\<lparr>s3_phase := MigClosing\<rparr>),
              (CancelMigration w, s\<lparr>s3_phase := MigCancelled\<rparr>)]
         | MigClosing \<Rightarrow>
             guarded (list_all so_close_cert (s3_sources s) \<or>
                 relaxed \<and> list_all (\<lambda>x. so_close_cert x \<or> so_offline x) (s3_sources s))
               (StartDraining w, s\<lparr>s3_phase := MigDraining\<rparr>) @
             guarded (control = Some RollbackFence)
               (CancelWithRollback w, s\<lparr>s3_phase := MigCancelled,
                  s3_sources := map rollback_source (s3_sources s),
                  s3_reopened_same_epoch := s3_reopened_same_epoch s +
                    of_nat (length (filter so_fenced (s3_sources s)))\<rparr>)
         | MigDraining \<Rightarrow>
             guarded (list_all (\<lambda>x. so_pending x = 0) (s3_sources s) \<or>
                 relaxed \<and> list_all (\<lambda>x. so_pending x = 0 \<or> so_offline x) (s3_sources s))
               (DrainComplete w, s\<lparr>s3_phase := MigInstalling\<rparr>)
         | MigInstalling \<Rightarrow>
             guarded (\<not> s3_target_installed s) (InstallTarget w, s\<lparr>s3_target_installed := True\<rparr>) @
             guarded (s3_target_installed s \<and>
                  list_all (\<lambda>x. so_close_cert x \<and> so_pending x = 0) (s3_sources s) \<or>
                 relaxed \<and> s3_target_installed s \<and>
                  list_all (\<lambda>x. so_close_cert x \<and> so_pending x = 0 \<or> so_offline x) (s3_sources s))
               (Activate w, s\<lparr>s3_phase := MigActive, s3_target_admitting := True\<rparr>)
         | MigActive \<Rightarrow>
             [(Retire w, s\<lparr>s3_phase := MigRetired,
                 s3_retained_results :=
                   (if control = Some RetireDropsResults then 0 else s3_retained_results s)\<rparr>)]
         | _ \<Rightarrow> [])"

definition fm3_worker_steps ::
  "fm3_control option \<Rightarrow> fm3_state \<Rightarrow> nat \<Rightarrow> (fm3_label \<times> fm3_state) list" where
  "fm3_worker_steps control s w =
     (if \<not> current_claim s w then []
      else
        fm3_phase_steps control s w @
        guarded (s3_phase s \<in> {MigClosing, MigDraining, MigInstalling} \<and>
            list_all (\<lambda>x. so_fence_epoch x < 2) (s3_sources s))
          (Supersede w, s\<lparr>s3_phase := MigCancelled, s3_target_admitting := False,
             s3_sources := map supersede_source (s3_sources s)\<rparr>))"

definition fm3_stale_steps ::
  "fm3_control option \<Rightarrow> fm3_state \<Rightarrow> nat \<Rightarrow> (fm3_label \<times> fm3_state) list" where
  "fm3_stale_steps control s w =
     guarded (control = Some StaleWorkerAdvances \<and> s3_worker_claims s ! w \<noteq> 0 \<and>
         \<not> current_claim s w \<and> s3_target_installed s \<and> s3_phase s = MigCancelled)
       (StaleActivate w, s\<lparr>s3_phase := MigActive, s3_target_admitting := True\<rparr>)"

definition set_source :: "nat \<Rightarrow> (source \<Rightarrow> source) \<Rightarrow> fm3_state \<Rightarrow> fm3_state" where
  "set_source i f s = s\<lparr>s3_sources := (s3_sources s)[i := f (s3_sources s ! i)]\<rparr>"

definition fm3_source_steps ::
  "fm3_control option \<Rightarrow> fm3_state \<Rightarrow> nat \<Rightarrow> (fm3_label \<times> fm3_state) list" where
  "fm3_source_steps control s i =
     (let x = s3_sources s ! i;
          admitted_total = s3_produced_results s + sum_list (map so_pending (s3_sources s))
      in guarded (so_admitting x \<and> \<not> so_fenced x \<and> so_pending x < MAX_PENDING \<and>
             admitted_total < MAX_ADMISSIONS)
           (AdmitOld i, set_source i (\<lambda>x. x\<lparr>so_pending := so_pending x + 1\<rparr>) s) @
         guarded (so_fenced x \<and> control = Some LatePacketAdmitted \<and> admitted_total < MAX_ADMISSIONS)
           (LatePacketAdmits i, set_source i (\<lambda>x. x\<lparr>so_pending := so_pending x + 1\<rparr>)
              (s\<lparr>s3_late_admissions := s3_late_admissions s + 1\<rparr>)) @
         guarded (0 < so_pending x \<and> \<not> so_offline x)
           (ResolveOld i, set_source i (\<lambda>x. x\<lparr>so_pending := so_pending x - 1\<rparr>)
              (s\<lparr>s3_produced_results := s3_produced_results s + 1,
                 s3_retained_results := s3_retained_results s + 1\<rparr>)) @
         guarded (s3_phase s = MigClosing \<and> \<not> so_fenced x \<and> \<not> so_offline x)
           (FenceSource i, set_source i (\<lambda>x. x\<lparr>so_fenced := True, so_admitting := False\<rparr>) s) @
         guarded (so_fenced x \<and> \<not> so_close_cert x \<and> \<not> so_offline x)
           (CloseCertificate i, set_source i (\<lambda>x. x\<lparr>so_close_cert := True\<rparr>) s) @
         (if \<not> so_offline x
          then [(SourceOffline i, set_source i (\<lambda>x. x\<lparr>so_offline := True\<rparr>) s)]
          else [(SourceBack i, set_source i (\<lambda>x. x\<lparr>so_offline := False\<rparr>) s)]))"

definition fm3_next :: "fm3_control option \<Rightarrow> fm3_state \<Rightarrow> (fm3_label \<times> fm3_state) list" where
  "fm3_next control s =
     for_each 2 (fm3_claim_steps s) @
     for_each 2 (fm3_worker_steps control s) @
     for_each 2 (fm3_stale_steps control s) @
     for_each (length (s3_sources s)) (fm3_source_steps control s)"

definition fm3_initial :: "nat \<Rightarrow> fm3_state" where
  "fm3_initial n =
     \<lparr>s3_phase = MigProposed, s3_catalog_revision = 0, s3_worker_claims = [0, 0],
      s3_sources = replicate n
        \<lparr>so_admitting = True, so_fenced = False, so_fence_epoch = 1, so_offline = False,
         so_pending = 0, so_close_cert = False\<rparr>,
      s3_target_installed = False, s3_target_admitting = False, s3_produced_results = 0,
      s3_retained_results = 0, s3_late_admissions = 0, s3_reopened_same_epoch = 0\<rparr>"

definition fm3_describe :: "fm3_state \<Rightarrow>
    mig_phase \<times> u8 \<times> u8 list \<times> bool \<times> bool \<times> u8 \<times> u8 \<times> (bool \<times> bool \<times> bool \<times> u8) list" where
  "fm3_describe s = (s3_phase s, s3_catalog_revision s, s3_worker_claims s, s3_target_installed s,
     s3_target_admitting s, s3_retained_results s, s3_produced_results s,
     map (\<lambda>x. (so_admitting x, so_fenced x, so_offline x, so_pending x)) (s3_sources s))"

definition fm3_run :: "nat \<Rightarrow> fm3_control option \<Rightarrow> nat \<Rightarrow> _" where
  "fm3_run n control max_states =
     explore ''FM-3'' (n, control) (fm3_initial n) (fm3_next control) fm3_invariant fm3_describe
       max_states"

definition fm3_controls :: "fm3_control list" where
  "fm3_controls = [ActivateWithOfflineSource, StaleWorkerAdvances, RollbackFence,
     LatePacketAdmitted, RetireDropsResults]"

definition fm3_evidence :: "nat \<Rightarrow> _" where
  "fm3_evidence max_states =
     collect_evidence ''FM-3'' (\<lambda>c. fm3_run 2 c max_states) fm3_controls"

section \<open>The inductive invariant\<close>

definition source_ok :: "mig_phase \<Rightarrow> source \<Rightarrow> bool" where
  "source_ok ph x \<longleftrightarrow>
     (so_close_cert x \<longrightarrow> so_fenced x) \<and> (so_fenced x \<longrightarrow> \<not> so_admitting x) \<and>
     (ph \<in> {MigDraining, MigInstalling, MigActive, MigRetired} \<longrightarrow> so_close_cert x) \<and>
     (ph \<in> {MigInstalling, MigActive, MigRetired} \<longrightarrow> so_pending x = 0)"

definition migration_ok :: "fm3_state \<Rightarrow> bool" where
  "migration_ok s \<longleftrightarrow>
     (s3_target_admitting s \<longrightarrow> s3_phase s \<in> {MigActive, MigRetired}) \<and>
     (s3_phase s \<in> {MigActive, MigRetired} \<longrightarrow> s3_target_installed s) \<and>
     s3_retained_results s = s3_produced_results s \<and> s3_late_admissions s = 0 \<and>
     s3_reopened_same_epoch s = 0"

definition fm3_strong :: "fm3_state \<Rightarrow> bool" where
  "fm3_strong s \<longleftrightarrow> migration_ok s \<and> list_all (source_ok (s3_phase s)) (s3_sources s)"

lemma fm3_strong_init: "fm3_strong (fm3_initial n)"
  by (simp add: fm3_strong_def migration_ok_def fm3_initial_def source_ok_def list_all_iff)

lemma fm3_check_sources_ok: "list_all (source_ok ph) xs \<Longrightarrow> fm3_check_sources i xs = Inr ()"
  by (induction i xs rule: fm3_check_sources.induct) (auto simp: source_ok_def)

lemma fm3_strong_ok:
  assumes "fm3_strong s"
  shows "fm3_invariant s = Inr ()"
proof -
  have m: "migration_ok s" and each: "\<And>x. x \<in> set (s3_sources s) \<Longrightarrow> source_ok (s3_phase s) x"
    using assms by (auto simp: fm3_strong_def list_all_iff)
  have "\<not> (s3_target_admitting s \<and> list_ex so_admitting (s3_sources s))"
    using m by (auto simp: list_ex_iff source_ok_def migration_ok_def dest!: each)
  moreover have "\<not> ((s3_phase s = MigActive \<or> s3_phase s = MigRetired) \<and>
      list_ex (\<lambda>x. \<not> so_close_cert x) (s3_sources s))"
    "\<not> ((s3_phase s = MigActive \<or> s3_phase s = MigRetired) \<and> list_ex (\<lambda>x. 0 < so_pending x) (s3_sources s))"
    by (auto simp: list_ex_iff source_ok_def dest!: each)
  moreover have "\<not> 0 < s3_reopened_same_epoch s" "\<not> s3_retained_results s \<noteq> s3_produced_results s"
    "\<not> ((s3_phase s = MigActive \<or> s3_phase s = MigRetired) \<and> \<not> s3_target_installed s)"
    "\<not> 0 < s3_late_admissions s"
    using m by (auto simp: migration_ok_def)
  moreover have "fm3_check_sources 0 (s3_sources s) = Inr ()"
    using assms by (auto simp: fm3_strong_def intro: fm3_check_sources_ok)
  ultimately show ?thesis unfolding fm3_invariant_def Let_def by (simp only: if_False)
qed

lemma fm3_strong_source:
  assumes "fm3_strong s" "i < length (s3_sources s)" "s3_sources s' = s3_sources s" "s3_phase s' = s3_phase s"
    and "migration_ok s \<Longrightarrow> migration_ok s'"
    and "source_ok (s3_phase s) (s3_sources s ! i) \<Longrightarrow> source_ok (s3_phase s) (f (s3_sources s ! i))"
  shows "fm3_strong (set_source i f s')"
  using assms by (simp add: fm3_strong_def set_source_def list_all_update list_all_nth migration_ok_def)

lemma fm3_strong_claim_steps:
  "(l, t) \<in> set (fm3_claim_steps s w) \<Longrightarrow> fm3_strong s \<Longrightarrow> fm3_strong t"
  by (auto simp: fm3_claim_steps_def fm3_strong_def migration_ok_def)

lemma fm3_strong_stale_steps: "(l, t) \<in> set (fm3_stale_steps None s w) \<Longrightarrow> fm3_strong t"
  by (simp add: fm3_stale_steps_def)

lemma source_ok_supersede: "source_ok ph x \<Longrightarrow> source_ok MigCancelled (supersede_source x)"
  by (auto simp: source_ok_def supersede_source_def)

lemma fm3_strong_phase_steps:
  "(l, t) \<in> set (fm3_phase_steps None s w) \<Longrightarrow> fm3_strong s \<Longrightarrow> fm3_strong t"
  by (cases "s3_phase s")
    (auto simp: fm3_phase_steps_def fm3_strong_def migration_ok_def source_ok_def list_all_iff)

lemma fm3_strong_supersede:
  "fm3_strong s \<Longrightarrow> fm3_strong (s\<lparr>s3_phase := MigCancelled, s3_target_admitting := False,
     s3_sources := map supersede_source (s3_sources s)\<rparr>)"
  by (auto simp: fm3_strong_def migration_ok_def list_all_iff intro: source_ok_supersede)

lemma fm3_strong_worker_steps:
  "(l, t) \<in> set (fm3_worker_steps None s w) \<Longrightarrow> fm3_strong s \<Longrightarrow> fm3_strong t"
  by (auto simp: fm3_worker_steps_def dest: fm3_strong_phase_steps intro: fm3_strong_supersede split: if_splits)

lemma mem_either: "y \<in> set (if b then [x] else [z]) \<longleftrightarrow> b \<and> y = x \<or> \<not> b \<and> y = z"
  by simp

lemma fm3_strong_source_steps:
  "(l, t) \<in> set (fm3_source_steps None s i) \<Longrightarrow> fm3_strong s \<Longrightarrow> i < length (s3_sources s) \<Longrightarrow> fm3_strong t"
  unfolding fm3_source_steps_def Let_def set_append Un_iff mem_guarded mem_either prod.inject
  by (elim disjE conjE; hypsubst; erule (1) fm3_strong_source)
    (auto simp: source_ok_def migration_ok_def MAX_PENDING_def)

lemma fm3_strong_step: "fm3_strong s \<Longrightarrow> (l, t) \<in> set (fm3_next None s) \<Longrightarrow> fm3_strong t"
  unfolding fm3_next_def set_append Un_iff set_for_each
  by (elim disjE exE conjE)
    (blast dest: fm3_strong_claim_steps fm3_strong_worker_steps fm3_strong_stale_steps
      fm3_strong_source_steps)+

section \<open>Finiteness\<close>

definition fm3_shape :: "fm3_state \<Rightarrow> nat \<times> nat" where
  "fm3_shape s = (length (s3_worker_claims s), length (s3_sources s))"

lemma fm3_shape_phase_steps: "(l, t) \<in> set (fm3_phase_steps c s w) \<Longrightarrow> fm3_shape t = fm3_shape s"
  by (cases "s3_phase s") (auto simp: fm3_phase_steps_def fm3_shape_def)

lemma fm3_shape_step: "(l, t) \<in> set (fm3_next c s) \<Longrightarrow> fm3_shape t = fm3_shape s"
  unfolding fm3_next_def set_append Un_iff set_for_each
proof (elim disjE exE conjE)
  fix w assume "(l, t) \<in> set (fm3_claim_steps s w)"
  then show ?thesis by (simp add: fm3_claim_steps_def fm3_shape_def)
next
  fix w assume "(l, t) \<in> set (fm3_worker_steps c s w)"
  then show ?thesis
    by (auto simp: fm3_worker_steps_def split: if_splits dest: fm3_shape_phase_steps)
      (simp_all add: fm3_shape_def)
next
  fix w assume "(l, t) \<in> set (fm3_stale_steps c s w)"
  then show ?thesis by (simp add: fm3_stale_steps_def fm3_shape_def)
next
  fix i assume "(l, t) \<in> set (fm3_source_steps c s i)"
  then show ?thesis
    unfolding fm3_source_steps_def Let_def set_append Un_iff mem_guarded mem_either prod.inject
    by (auto simp: set_source_def fm3_shape_def)
qed

lemma fm3_shape_reachable: "reachable (fm3_next c) (fm3_initial n) s \<Longrightarrow> fm3_shape s = (2, n)"
  by (induction rule: reachable.induct) (auto simp: fm3_shape_step, simp add: fm3_initial_def fm3_shape_def)

instance mig_phase :: finite
proof
  have "(UNIV :: mig_phase set) = {MigProposed, MigClosing, MigDraining, MigInstalling, MigActive,
      MigRetired, MigCancelled}" by (auto intro: mig_phase.exhaust)
  then show "finite (UNIV :: mig_phase set)" by (metis finite.emptyI finite_insert)
qed

lemma finite_source: "finite (UNIV :: source set)"
proof (rule finite_imageD)
  let ?f = "\<lambda>x :: source. (so_admitting x, so_fenced x, so_fence_epoch x, so_offline x, so_pending x,
    so_close_cert x)"
  show "finite (range ?f)" by (rule finite_subset [OF subset_UNIV finite])
  show "inj ?f" by (rule injI, rule source.equality) simp_all
qed

lemma finite_fm3_state: "finite {s :: fm3_state. fm3_shape s = (k, n)}"
proof (rule finite_imageD)
  let ?f = "\<lambda>s :: fm3_state. (s3_worker_claims s, s3_sources s, s3_phase s, s3_catalog_revision s,
    s3_target_installed s, s3_target_admitting s, s3_produced_results s, s3_retained_results s,
    s3_late_admissions s, s3_reopened_same_epoch s)"
  have "?f ` {s. fm3_shape s = (k, n)} \<subseteq>
      {cs. set cs \<subseteq> UNIV \<and> length cs = k} \<times> {xs. set xs \<subseteq> UNIV \<and> length xs = n} \<times> UNIV"
    by (auto simp: fm3_shape_def)
  then show "finite (?f ` {s. fm3_shape s = (k, n)})"
    by (rule finite_subset)
      (intro finite_cartesian_product finite_lists_length_eq finite_source finite)
  show "inj_on ?f {s. fm3_shape s = (k, n)}" by (rule inj_onI, rule fm3_state.equality) simp_all
qed

lemma finite_fm3_reachable: "finite {s. reachable (fm3_next c) (fm3_initial n) s}"
  by (rule finite_subset [OF _ finite_fm3_state [of 2 n]]) (auto dest: fm3_shape_reachable)

section \<open>The negative controls\<close>

lemma two_workers: "[0..<2] = [0, 1]" "replicate 2 x = [x, x]"
  by (simp_all add: numeral_2_eq_2)

lemmas fm3_eval = two_workers fm3_next_def fm3_initial_def for_each_def fm3_claim_steps_def fm3_worker_steps_def
  fm3_phase_steps_def fm3_stale_steps_def fm3_source_steps_def guarded_def set_source_def
  rollback_source_def supersede_source_def current_claim_def MAX_PENDING_def MAX_ADMISSIONS_def
  fm3_invariant_def Let_def nth_list_update

lemma fm3_control_violates:
  "\<exists>s v. reachable (fm3_next (Some c)) (fm3_initial 2) s \<and> fm3_invariant s = Inl v" (is "?bad c")
proof -
  have "?bad ActivateWithOfflineSource"
    by (rule follow_violation [of _ _ _ "[WorkerClaim 0, StartClosing 0, SourceOffline 0, SourceOffline 1,
      StartDraining 0, DrainComplete 0, InstallTarget 0, Activate 0]" OverlappingAuthorities])
      (simp add: fm3_eval)
  moreover have "?bad StaleWorkerAdvances"
    by (rule follow_violation [of _ _ _ "[WorkerClaim 0, WorkerClaim 1, StartClosing 1, FenceSource 0,
      FenceSource 1, CloseCertificate 0, CloseCertificate 1, StartDraining 1, DrainComplete 1,
      InstallTarget 1, Supersede 1, StaleActivate 0]" OverlappingAuthorities]) (simp add: fm3_eval)
  moreover have "?bad RollbackFence"
    by (rule follow_violation [of _ _ _ "[WorkerClaim 0, StartClosing 0, FenceSource 0,
      CancelWithRollback 0]" ReopenedSameEpoch]) (simp add: fm3_eval)
  moreover have "?bad LatePacketAdmitted"
    by (rule follow_violation [of _ _ _ "[WorkerClaim 0, StartClosing 0, FenceSource 0,
      LatePacketAdmits 0]" LatePacketAfterFence]) (simp add: fm3_eval)
  moreover have "?bad RetireDropsResults"
    by (rule follow_violation [of _ _ _ "[AdmitOld 0, ResolveOld 0, WorkerClaim 0, StartClosing 0,
      FenceSource 0, FenceSource 1, CloseCertificate 0, CloseCertificate 1, StartDraining 0,
      DrainComplete 0, InstallTarget 0, Activate 0, Retire 0]" ResultNotResolvable]) (simp add: fm3_eval)
  ultimately show ?thesis by (cases c) simp_all
qed

interpretation fm3: checked_model "fm3_next None" "fm3_initial n" fm3_invariant fm3_strong for n
  by unfold_locales (rule fm3_strong_init fm3_strong_ok | erule (1) fm3_strong_step)+

interpretation fm3_gated: gated_model fm3_next "fm3_initial 2" fm3_invariant fm3_strong fm3_controls
  by (rule gated_model.intro [OF fm3.checked_model_axioms finite_fm3_reachable fm3_control_violates])

section \<open>The admission bound\<close>

text \<open>
  Produced results and pending requests are counted in 8 bits. In unbounded arithmetic they never
  exceed \<open>MAX_ADMISSIONS\<close> without a control, so the 8-bit sum the guard computes is exact.
\<close>

definition admitted :: "fm3_state \<Rightarrow> nat" where
  "admitted s = unat (s3_produced_results s) + sum_list (map (\<lambda>x. unat (so_pending x)) (s3_sources s))"

lemma admitted_word:
  "s3_produced_results s + sum_list (map so_pending (s3_sources s)) = of_nat (admitted s)"
proof -
  have "sum_list (map so_pending xs) = of_nat (sum_list (map (\<lambda>x. unat (so_pending x)) xs))" for xs
    by (induction xs) simp_all
  then show ?thesis by (simp add: admitted_def)
qed

lemma admitted_set_source:
  assumes "i < length (s3_sources s)" "s3_sources s' = s3_sources s"
  shows "admitted (set_source i f s') + unat (so_pending (s3_sources s ! i)) + unat (s3_produced_results s) =
    admitted s + unat (so_pending (f (s3_sources s ! i))) + unat (s3_produced_results s')"
  using sum_list_map_update [OF assms(1), of "\<lambda>x. unat (so_pending x)"] assms(2)
  by (simp add: admitted_def set_source_def)

lemma admitted_admit:
  assumes "i < length (s3_sources s)" "so_pending (s3_sources s ! i) < MAX_PENDING" "admitted s \<le> 2"
    and "s3_produced_results s + sum_list (map so_pending (s3_sources s)) < MAX_ADMISSIONS"
  shows "admitted (set_source i (\<lambda>x. x\<lparr>so_pending := so_pending x + 1\<rparr>) s) \<le> 2"
proof -
  have "unat (of_nat (admitted s) :: u8) = admitted s"
    using assms(3) by (simp add: unat_of_nat)
  then have "admitted s < 2"
    using assms(4) unfolding admitted_word MAX_ADMISSIONS_def word_less_nat_alt by simp
  moreover have "so_pending (s3_sources s ! i) = 0"
    using assms(2) unfolding MAX_PENDING_def word_less_nat_alt by (simp add: unat_eq_0)
  ultimately show ?thesis
    using admitted_set_source [OF assms(1) refl, of "\<lambda>x. x\<lparr>so_pending := so_pending x + 1\<rparr>"] by simp
qed

lemma admitted_resolve:
  assumes "i < length (s3_sources s)" "0 < so_pending (s3_sources s ! i)" "admitted s \<le> 2"
  shows "admitted (set_source i (\<lambda>x. x\<lparr>so_pending := so_pending x - 1\<rparr>)
    (s\<lparr>s3_produced_results := s3_produced_results s + 1,
       s3_retained_results := s3_retained_results s + 1\<rparr>)) = admitted s"
proof -
  have "so_pending (s3_sources s ! i) \<noteq> 0" using assms(2) by auto
  then have "unat (so_pending (s3_sources s ! i) - 1) = unat (so_pending (s3_sources s ! i)) - 1"
    "0 < unat (so_pending (s3_sources s ! i))"
    by (simp_all add: unat_minus_one unat_gt_0)
  moreover have "unat (s3_produced_results s + 1) = unat (s3_produced_results s) + 1"
    using assms(3) by (simp add: admitted_def unat_word_ariths)
  ultimately show ?thesis
    using admitted_set_source [OF assms(1), of "s\<lparr>s3_produced_results := s3_produced_results s + 1,
       s3_retained_results := s3_retained_results s + 1\<rparr>" "\<lambda>x. x\<lparr>so_pending := so_pending x - 1\<rparr>"]
    by simp
qed

lemma admitted_keep:
  assumes "i < length (s3_sources s)" "so_pending (f (s3_sources s ! i)) = so_pending (s3_sources s ! i)"
  shows "admitted (set_source i f s) = admitted s"
  using admitted_set_source [OF assms(1) refl, of f] assms(2) by simp

lemma admitted_source_steps:
  "(l, t) \<in> set (fm3_source_steps None s i) \<Longrightarrow> i < length (s3_sources s) \<Longrightarrow> admitted s \<le> 2 \<Longrightarrow>
   admitted t \<le> 2"
  unfolding fm3_source_steps_def Let_def set_append Un_iff mem_guarded mem_either prod.inject
  by (elim disjE conjE; hypsubst) (simp_all add: admitted_admit admitted_resolve admitted_keep)

lemma admitted_phase_steps:
  "(l, t) \<in> set (fm3_phase_steps None s w) \<Longrightarrow> admitted t = admitted s"
  by (cases "s3_phase s") (auto simp: fm3_phase_steps_def admitted_def)

lemma admitted_supersede: "unat (so_pending (supersede_source x)) = unat (so_pending x)"
  by (simp add: supersede_source_def)

lemma admitted_step:
  assumes "(l, t) \<in> set (fm3_next None s)" "admitted s \<le> 2"
  shows "admitted t \<le> 2"
  using assms(1) unfolding fm3_next_def set_append Un_iff set_for_each
proof (elim disjE exE conjE)
  fix w assume "(l, t) \<in> set (fm3_claim_steps s w)"
  with assms(2) show ?thesis by (simp add: fm3_claim_steps_def admitted_def)
next
  fix w assume "(l, t) \<in> set (fm3_worker_steps None s w)"
  with assms(2) show ?thesis
    by (auto simp: fm3_worker_steps_def split: if_splits dest: admitted_phase_steps)
      (simp_all add: admitted_def comp_def admitted_supersede)
next
  fix w assume "(l, t) \<in> set (fm3_stale_steps None s w)"
  then show ?thesis by (simp add: fm3_stale_steps_def)
next
  fix i assume "i < length (s3_sources s)" "(l, t) \<in> set (fm3_source_steps None s i)"
  with assms(2) show ?thesis by (blast intro: admitted_source_steps)
qed

section \<open>Properties\<close>

text \<open>C3: in every reachable state of the migration model without a control, for every number of
  sources, the checked invariant holds. Spelled out for the hand-over: while the target admits, every
  source is fenced, holds a close certificate, admits nothing and has no pending request.\<close>

theorem fm3_safe:
  assumes "reachable (fm3_next None) (fm3_initial n) s"
  shows "fm3_invariant s = Inr () \<and>
    (s3_target_admitting s \<longrightarrow> (\<forall>x \<in> set (s3_sources s).
       so_fenced x \<and> so_close_cert x \<and> \<not> so_admitting x \<and> so_pending x = 0))"
proof -
  have "s3_target_admitting s \<Longrightarrow> s3_phase s \<in> {MigActive, MigRetired}"
    and *: "x \<in> set (s3_sources s) \<Longrightarrow> source_ok (s3_phase s) x" for x
    using fm3.reachable_strong [OF assms] by (auto simp: fm3_strong_def migration_ok_def list_all_iff)
  then have "so_fenced x \<and> so_close_cert x \<and> \<not> so_admitting x \<and> so_pending x = 0"
    if "s3_target_admitting s" "x \<in> set (s3_sources s)" for x
    using that * [OF that(2)] unfolding source_ok_def by blast
  with fm3.reachable_ok [OF assms] show ?thesis by blast
qed

definition fm3_happy_run :: "fm3_label list" where
  "fm3_happy_run = [AdmitOld 0, WorkerClaim 0, StartClosing 0, FenceSource 0, FenceSource 1,
     CloseCertificate 0, CloseCertificate 1, StartDraining 0, ResolveOld 0, DrainComplete 0,
     InstallTarget 0, Activate 0]"

lemma fm3_happy_state:
  "\<exists>s. follow (fm3_next None) (fm3_initial 2) fm3_happy_run = Some s \<and> s3_target_admitting s"
  by (simp add: fm3_happy_run_def fm3_eval)

theorem fm3_safe_witness:
  "\<exists>s. reachable (fm3_next None) (fm3_initial 2) s \<and> s3_target_admitting s \<and> fm3_invariant s = Inr () \<and>
     (\<forall>x \<in> set (s3_sources s). so_fenced x \<and> so_pending x = 0)"
proof -
  obtain s where s: "follow (fm3_next None) (fm3_initial 2) fm3_happy_run = Some s" "s3_target_admitting s"
    using fm3_happy_state by blast
  note r = follow_reachable [OF s(1) reachable_init]
  from fm3_safe [OF r] s(2) r show ?thesis by blast
qed

text \<open>C10: old-generation admissions are bounded without wrap-around: in every reachable state the
  produced results and the pending requests of all sources, summed in unbounded arithmetic, are at
  most \<open>MAX_ADMISSIONS\<close>, whatever the number of sources.\<close>

theorem fm3_admissions_bounded:
  assumes "reachable (fm3_next None) (fm3_initial n) s"
  shows "unat (s3_produced_results s) + (\<Sum>x\<leftarrow>s3_sources s. unat (so_pending x)) \<le> unat MAX_ADMISSIONS"
proof -
  have "admitted s \<le> 2" using assms
  proof (induction rule: reachable.induct)
    case reachable_init
    show ?case by (simp add: admitted_def fm3_initial_def sum_list_replicate)
  qed (rule admitted_step)
  then show ?thesis by (simp add: admitted_def MAX_ADMISSIONS_def)
qed

theorem fm3_admissions_bounded_witness:
  "\<exists>s. reachable (fm3_next None) (fm3_initial 2) s \<and> s3_target_admitting s \<and>
     unat (s3_produced_results s) + (\<Sum>x\<leftarrow>s3_sources s. unat (so_pending x)) \<le> unat MAX_ADMISSIONS"
proof -
  obtain s where s: "follow (fm3_next None) (fm3_initial 2) fm3_happy_run = Some s" "s3_target_admitting s"
    using fm3_happy_state by blast
  note r = follow_reachable [OF s(1) reachable_init]
  from fm3_admissions_bounded [OF r] s(2) r show ?thesis by blast
qed

text \<open>C8: the FM-3 gate. From some state budget on, the positive exploration with two sources
  completes without a violation and each of the five negative controls produces a counterexample.\<close>

theorem fm3_gate_passes:
  "\<exists>N. \<forall>max_states \<ge> N. \<exists>ev. fm3_evidence max_states = Some ev \<and> verdict ev = Inr ()"
  unfolding fm3_evidence_def fm3_run_def by (rule fm3_gated.gate_passes)

theorem fm3_gate_passes_witness:
  "\<exists>max_states ev. fm3_evidence max_states = Some ev \<and> verdict ev = Inr ()"
  using fm3_gate_passes by blast

end
