(* ===== verification/DetRng.thy ===== *)
theory DetRng
  imports Carolina_Prelude
begin

text \<open>
  The seeded generator of \<^verbatim>\<open>src/crates/carolina-core/src/rng.rs\<close> (SplitMix64 seeding,
  xoshiro256**) on 64-bit words. The rejection loop of \<open>below\<close> is a partial function; a draw that
  returns is in range, and the rejection zone is what makes it unbiased.
\<close>

unbundle bit_operations_syntax

record det_rng =
  rs0 :: u64
  rs1 :: u64
  rs2 :: u64
  rs3 :: u64

text \<open>\<open>splitmix64(&mut state)\<close>: the result and the advanced state.\<close>

definition splitmix64 :: "u64 \<Rightarrow> u64 \<times> u64" where
  "splitmix64 state =
     (let st = state + 0x9E3779B97F4A7C15;
          z = (st XOR drop_bit 30 st) * 0xBF58476D1CE4E5B9;
          z = (z XOR drop_bit 27 z) * 0x94D049BB133111EB
      in (z XOR drop_bit 31 z, st))"

definition rng_new :: "u64 \<Rightarrow> det_rng" where
  "rng_new seed =
     (let (a, st) = splitmix64 seed;
          (b, st) = splitmix64 st;
          (c, st) = splitmix64 st;
          (d, st) = splitmix64 st
      in \<lparr>rs0 = a, rs1 = b, rs2 = c, rs3 = d\<rparr>)"

definition next_u64 :: "det_rng \<Rightarrow> u64 \<times> det_rng" where
  "next_u64 r =
     (let result = word_rotl 7 (rs1 r * 5) * 9;
          t = push_bit 17 (rs1 r);
          s2 = rs2 r XOR rs0 r;
          s3 = rs3 r XOR rs1 r;
          s1 = rs1 r XOR s2;
          s0 = rs0 r XOR s3
      in (result, \<lparr>rs0 = s0, rs1 = s1, rs2 = s2 XOR t, rs3 = word_rotl 45 s3\<rparr>))"

definition rng_zone :: "u64 \<Rightarrow> u64" where
  "rng_zone n = - 1 - (- 1) mod n"

partial_function (option) below_loop :: "u64 \<Rightarrow> u64 \<Rightarrow> det_rng \<Rightarrow> (u64 \<times> det_rng) option" where
  "below_loop zone n r =
     (let (v, r') = next_u64 r in if v < zone then Some (v mod n, r') else below_loop zone n r')"

definition below :: "u64 \<Rightarrow> det_rng \<Rightarrow> exc + (u64 \<times> det_rng)" where
  "below n r =
     (if \<not> n > 0 then Inl Panic
      else case below_loop (rng_zone n) n r of None \<Rightarrow> Inl NoReturn | Some x \<Rightarrow> Inr x)"

text \<open>\<open>range_i64\<close>: the span is computed in 128 bits and cast to \<open>u64\<close>.\<close>

definition range_i64 :: "i64 \<Rightarrow> i64 \<Rightarrow> det_rng \<Rightarrow> exc + (i64 \<times> det_rng)" where
  "range_i64 lo hi r =
     (if \<not> sint lo \<le> sint hi then Inl Panic
      else
        let span = word_of_int (sint hi - sint lo + 1) :: u64
        in rbind (below span r) (\<lambda>(v, r). Inr (lo + v, r)))"

definition rng_chance :: "u64 \<Rightarrow> u64 \<Rightarrow> det_rng \<Rightarrow> exc + (bool \<times> det_rng)" where
  "rng_chance num den r = rbind (below den r) (\<lambda>(v, r). Inr (v < num, r))"

text \<open>\<open>bytes(n)\<close>: little-endian words of the stream, cut at \<open>n\<close> bytes.\<close>

function rng_bytes :: "nat \<Rightarrow> bytes \<Rightarrow> det_rng \<Rightarrow> bytes \<times> det_rng" where
  "rng_bytes n v r =
     (if length v < n
      then let (x, r') = next_u64 r in rng_bytes n (v @ take (n - length v) (u64_le x)) r'
      else (v, r))"
  by auto
termination
  by (relation "measure (\<lambda>(n, v, r). n - length v)") (auto simp: length_word_bytes)

declare rng_bytes.simps [simp del]

definition rng_fork :: "det_rng \<Rightarrow> det_rng \<times> det_rng" where
  "rng_fork r = (let (x, r') = next_u64 r in (rng_new x, r'))"

section \<open>Draws in range\<close>

lemma below_loop_range:
  assumes "below_loop zone n r = Some y"
  shows "0 < n \<longrightarrow> fst y < n"
proof (rule below_loop.raw_induct [where P = "\<lambda>zone n r y. 0 < n \<longrightarrow> fst y < n", OF _ assms])
  fix loop :: "u64 \<Rightarrow> u64 \<Rightarrow> det_rng \<Rightarrow> (u64 \<times> det_rng) option" and zone n r y
  assume IH: "\<And>zone n r y. loop zone n r = Some y \<Longrightarrow> 0 < n \<longrightarrow> fst y < n"
    and y: "(let (v, r') = next_u64 r in if v < zone then Some (v mod n, r') else loop zone n r') = Some y"
  show "0 < n \<longrightarrow> fst y < n"
  proof (cases "fst (next_u64 r) < zone")
    case True
    have "n > 0 \<Longrightarrow> fst (next_u64 r) mod n < n"
      by (simp add: word_less_nat_alt unat_mod_distrib unat_gt_0)
    with True y show ?thesis by (auto simp: split_beta)
  next
    case False
    with y have "loop zone n (snd (next_u64 r)) = Some y" by (simp add: split_beta)
    then show ?thesis by (rule IH)
  qed
qed

lemma below_range: "below n r = Inr (v, r') \<Longrightarrow> v < n"
  using below_loop_range [of "rng_zone n" n r "(v, r')"]
  by (auto simp: below_def split: if_splits option.splits)

lemma unat_max_u64: "unat (- 1 :: u64) = 2 ^ 64 - 1"
  by (simp add: unsigned_minus_1_eq_mask mask_eq_exp_minus_1)

lemma unat_of_nat_u64: "m < 2 ^ 64 \<Longrightarrow> unat (of_nat m :: u64) = m"
  by (simp add: unat_of_nat)

lemma unat_rng_zone: "unat (rng_zone n) = (2 ^ 64 - 1) - (2 ^ 64 - 1) mod unat n"
proof -
  have "unat ((- 1 :: u64) mod n) = (2 ^ 64 - 1) mod unat n"
    by (simp add: unat_mod_distrib unat_max_u64)
  moreover have "(- 1 :: u64) mod n \<le> - 1" by simp
  ultimately show ?thesis unfolding rng_zone_def by (simp add: unat_sub unat_max_u64)
qed

lemma card_residues:
  fixes N q K :: nat
  assumes "K < N"
  shows "card {m. m < N * q \<and> m mod N = K} = q"
proof -
  have "{m. m < N * q \<and> m mod N = K} = (\<lambda>i. i * N + K) ` {..<q}"
  proof (intro set_eqI iffI)
    fix m assume "m \<in> {m. m < N * q \<and> m mod N = K}"
    then have "m = (m div N) * N + K" "m div N < q"
      by (auto simp: less_mult_imp_div_less mult.commute)
    then show "m \<in> (\<lambda>i. i * N + K) ` {..<q}" by blast
  next
    fix m assume "m \<in> (\<lambda>i. i * N + K) ` {..<q}"
    then obtain i where i: "i < q" "m = i * N + K" by blast
    then have "Suc i * N \<le> q * N" by (intro mult_le_mono) auto
    with i assms show "m \<in> {m. m < N * q \<and> m mod N = K}" by (auto simp: mult.commute)
  qed
  moreover have "inj_on (\<lambda>i. i * N + K) {..<q}" using assms by (auto intro: inj_onI)
  ultimately show ?thesis by (simp add: card_image)
qed

section \<open>The rejection loop\<close>

text \<open>The raw values of a generator: the value and the state of its draw number \<open>i\<close>.\<close>

definition raw :: "det_rng \<Rightarrow> nat \<Rightarrow> u64 \<times> det_rng" where
  "raw r i = next_u64 (((snd \<circ> next_u64) ^^ i) r)"

lemma raw_0 [simp]: "raw r 0 = next_u64 r"
  by (simp add: raw_def)

lemma raw_Suc [simp]: "raw r (Suc i) = raw (snd (next_u64 r)) i"
  by (simp add: raw_def funpow_Suc_right del: funpow.simps)

lemma below_loop_returns:
  assumes "\<forall>i < j. \<not> fst (raw r i) < zone" "fst (raw r j) < zone"
  shows "below_loop zone n r = Some (fst (raw r j) mod n, snd (raw r j))"
  using assms
proof (induction j arbitrary: r)
  case 0
  then show ?case by (subst below_loop.simps) (simp add: split_beta)
next
  case (Suc j)
  have "\<not> fst (next_u64 r) < zone" using Suc.prems(1) by (metis raw_0 zero_less_Suc)
  moreover have "\<forall>i < j. \<not> fst (raw (snd (next_u64 r)) i) < zone" using Suc.prems(1) by (metis Suc_mono raw_Suc)
  ultimately show ?case using Suc.IH Suc.prems(2) by (subst below_loop.simps) (simp add: split_beta)
qed

definition first_accepted :: "u64 \<Rightarrow> u64 \<Rightarrow> det_rng \<Rightarrow> u64 \<times> det_rng \<Rightarrow> bool" where
  "first_accepted zone n r y \<longleftrightarrow>
     (\<exists>j. (\<forall>i < j. \<not> fst (raw r i) < zone) \<and> fst (raw r j) < zone \<and> y = (fst (raw r j) mod n, snd (raw r j)))"

lemma first_accepted_next:
  assumes "\<not> fst (next_u64 r) < zone" "first_accepted zone n (snd (next_u64 r)) y"
  shows "first_accepted zone n r y"
proof -
  obtain j where j: "\<forall>i < j. \<not> fst (raw (snd (next_u64 r)) i) < zone" "fst (raw (snd (next_u64 r)) j) < zone"
    "y = (fst (raw (snd (next_u64 r)) j) mod n, snd (raw (snd (next_u64 r)) j))"
    using assms(2) unfolding first_accepted_def by blast
  have "\<not> fst (raw r i) < zone" if "i < Suc j" for i
    using that j(1) assms(1) by (cases i) simp_all
  then show ?thesis unfolding first_accepted_def using j(2,3) by (intro exI [of _ "Suc j"]) simp
qed

lemma below_loop_iff: "below_loop zone n r = Some y \<longleftrightarrow> first_accepted zone n r y"
proof
  assume "below_loop zone n r = Some y"
  then show "first_accepted zone n r y"
  proof (rule below_loop.raw_induct [rotated])
    fix loop :: "u64 \<Rightarrow> u64 \<Rightarrow> det_rng \<Rightarrow> (u64 \<times> det_rng) option" and zone n r y
    assume IH: "\<And>zone n r y. loop zone n r = Some y \<Longrightarrow> first_accepted zone n r y"
      and y: "(let (v, r') = next_u64 r in if v < zone then Some (v mod n, r') else loop zone n r') = Some y"
    show "first_accepted zone n r y"
    proof (cases "fst (next_u64 r) < zone")
      case True
      with y show ?thesis unfolding first_accepted_def by (intro exI [of _ 0]) (simp add: split_beta)
    next
      case False
      with y have "loop zone n (snd (next_u64 r)) = Some y" by (simp add: split_beta)
      then show ?thesis using first_accepted_next [OF False] IH by blast
    qed
  qed
next
  assume "first_accepted zone n r y"
  then show "below_loop zone n r = Some y" unfolding first_accepted_def using below_loop_returns by blast
qed

lemma card_zone_residue:
  assumes "k < n"
  shows "card {w :: u64. w < rng_zone n \<and> w mod n = k} = (2 ^ 64 - 1) div unat n" (is "card ?A = _")
proof -
  let ?N = "unat n" and ?K = "unat k"
  have K: "?K < ?N" using assms by (simp add: word_less_nat_alt)
  define q where "q = (2 ^ 64 - 1) div ?N"
  have Z: "unat (rng_zone n) = ?N * q"
    unfolding unat_rng_zone q_def by (metis minus_mod_eq_mult_div)
  have "unat ` ?A = {m. m < ?N * q \<and> m mod ?N = ?K}"
  proof (intro set_eqI iffI)
    fix m assume "m \<in> unat ` ?A"
    then show "m \<in> {m. m < ?N * q \<and> m mod ?N = ?K}"
      by (auto simp: word_less_nat_alt Z simp flip: unat_mod_distrib)
  next
    fix m assume m: "m \<in> {m. m < ?N * q \<and> m mod ?N = ?K}"
    then have "m < 2 ^ 64" using unat_bounds(3) [of "rng_zone n"] by (simp add: Z)
    then obtain w :: u64 where w: "unat w = m" using unat_of_nat_u64 by blast
    with m have "w < rng_zone n" unfolding word_less_nat_alt Z by blast
    moreover have "unat (w mod n) = ?K" using m w unfolding unat_mod_distrib by blast
    ultimately show "m \<in> unat ` ?A" using w by (auto simp: unsigned_word_eqI)
  qed
  moreover have "inj_on unat ?A" by (rule inj_onI) (rule unsigned_word_eqI)
  ultimately have "card ?A = card {m. m < ?N * q \<and> m mod ?N = ?K}"
    by (metis (no_types, lifting) card_image)
  also have "\<dots> = q" by (rule card_residues [OF K])
  finally show ?thesis unfolding q_def .
qed

section \<open>Properties\<close>

text \<open>C11: \<open>below n\<close> is unbiased for every positive \<open>n\<close>. There is a set \<open>A\<close> of raw 64-bit values such
  that every residue modulo \<open>n\<close> is the remainder of exactly \<open>(2 ^ 64 - 1) div n\<close> members of \<open>A\<close>, and
  \<open>below n\<close> returns a value exactly when the stream of raw values reaches a member of \<open>A\<close>: it then
  returns the remainder of the first such member and the generator state after that draw.\<close>

theorem below_unbiased:
  assumes "0 < n"
  shows "\<exists>A. (\<forall>k < n. card {w \<in> A. w mod n = k} = (2 ^ 64 - 1) div unat n) \<and>
    (\<forall>r v r'. below n r = Inr (v, r') \<longleftrightarrow>
       (\<exists>j. (\<forall>i < j. fst (raw r i) \<notin> A) \<and> fst (raw r j) \<in> A \<and> v = fst (raw r j) mod n \<and> r' = snd (raw r j)))"
proof (intro exI conjI allI impI)
  let ?A = "{w. w < rng_zone n}"
  show "card {w \<in> ?A. w mod n = k} = (2 ^ 64 - 1) div unat n" if "k < n" for k
    using card_zone_residue [OF that] by simp
  show "below n r = Inr (v, r') \<longleftrightarrow>
      (\<exists>j. (\<forall>i < j. fst (raw r i) \<notin> ?A) \<and> fst (raw r j) \<in> ?A \<and> v = fst (raw r j) mod n \<and> r' = snd (raw r j))" for r v r'
    using assms below_loop_iff [of "rng_zone n" n r "(v, r')"]
    by (auto simp: below_def first_accepted_def split: option.splits)
qed

theorem below_unbiased_witness:
  "\<exists>A j. card {w \<in> A. w mod 10 = 3} = 1844674407370955161 \<and> fst (raw (rng_new 1) j) \<in> A \<and>
     below 10 (rng_new 1) = Inr (fst (raw (rng_new 1) j) mod 10, snd (raw (rng_new 1) j))"
proof -
  have "fst (next_u64 (rng_new 1)) < rng_zone 10" by code_simp
  then have "below_loop (rng_zone 10) 10 (rng_new 1) = Some (fst (next_u64 (rng_new 1)) mod 10, snd (next_u64 (rng_new 1)))"
    by (subst below_loop.simps) (simp add: split_beta)
  then have b: "below 10 (rng_new 1) = Inr (fst (next_u64 (rng_new 1)) mod 10, snd (next_u64 (rng_new 1)))"
    by (simp add: below_def)
  obtain A where A: "\<forall>k < 10. card {w \<in> A. w mod 10 = k} = (2 ^ 64 - 1) div unat (10 :: u64)"
    "\<forall>r v r'. below 10 r = Inr (v, r') \<longleftrightarrow>
       (\<exists>j. (\<forall>i < j. fst (raw r i) \<notin> A) \<and> fst (raw r j) \<in> A \<and> v = fst (raw r j) mod 10 \<and> r' = snd (raw r j))"
    using below_unbiased [of 10] by auto
  have "(3 :: u64) < 10" by simp
  then have "card {w \<in> A. w mod 10 = 3} = 1844674407370955161" using A(1) by simp
  moreover obtain j where j: "fst (raw (rng_new 1) j) \<in> A" "fst (next_u64 (rng_new 1)) mod 10 = fst (raw (rng_new 1) j) mod 10"
    "snd (next_u64 (rng_new 1)) = snd (raw (rng_new 1) j)"
    using iffD1 [OF A(2) [rule_format] b] by blast
  have "below 10 (rng_new 1) = Inr (fst (raw (rng_new 1) j) mod 10, snd (raw (rng_new 1) j))"
    using b unfolding j(2,3) .
  ultimately show ?thesis using j(1) by blast
qed

lemma range_span:
  fixes lo hi :: i64
  assumes "sint lo \<le> sint hi"
  shows "uint (word_of_int (sint hi - sint lo + 1) :: u64) =
    (if sint hi - sint lo = 2 ^ 64 - 1 then 0 else sint hi - sint lo + 1)"
proof -
  have "sint hi < 2 ^ 63" "- (2 ^ 63) \<le> sint lo" using sint_lt [of hi] sint_ge [of lo] by simp_all
  moreover have "uint (word_of_int k :: u64) = k mod 2 ^ 64" for k
    by (simp add: uint_word_of_int_eq take_bit_eq_mod)
  ultimately show ?thesis using assms by (auto simp del: of_int_add of_int_diff of_int_1)
qed

lemma sint_plus_in_range:
  fixes lo v :: i64
  assumes "sint lo + uint v < 2 ^ 63"
  shows "sint (lo + v) = sint lo + uint v"
proof -
  have "- (2 ^ 63) \<le> sint lo" "0 \<le> uint v" using sint_ge [of lo] by simp_all
  then have "signed_take_bit 63 (sint lo + uint v) = sint lo + uint v"
    using assms unfolding signed_take_bit_int_eq_self_iff by linarith
  moreover have "lo + v = word_of_int (sint lo + uint v)" by simp
  ultimately show ?thesis by (simp add: signed_of_int del: of_int_add)
qed

text \<open>C12: \<open>range_i64\<close> returns a value between its bounds, both included, whenever it returns, with
  the 64-bit wrapping addition it uses.\<close>

theorem range_i64_in_range:
  assumes "range_i64 lo hi r = Inr (v, r')"
  shows "sint lo \<le> sint v \<and> sint v \<le> sint hi"
proof -
  let ?span = "word_of_int (sint hi - sint lo + 1) :: u64"
  from assms obtain x where le: "sint lo \<le> sint hi" and "below ?span r = Inr (x, r')" "v = lo + x"
    by (auto simp: range_i64_def Let_def rbind_eq_Inr_iff split: if_splits)
  then have "uint x < uint ?span" using below_range by (simp add: word_less_def)
  then have x: "uint x \<le> sint hi - sint lo" using range_span [OF le] le by (auto split: if_splits)
  moreover have "sint hi < 2 ^ 63" using sint_lt [of hi] by simp
  ultimately have "sint (lo + x) = sint lo + uint x" by (intro sint_plus_in_range) simp
  with x \<open>v = lo + x\<close> show ?thesis by simp
qed

text \<open>C13: \<open>range_i64\<close> panics exactly when the bounds are reversed or when they are the whole
  64-bit range, where the span overflows to zero.\<close>

theorem range_i64_panics_iff:
  "range_i64 lo hi r = Inl Panic \<longleftrightarrow>
     sint hi < sint lo \<or> (sint lo = - (2 ^ 63) \<and> sint hi = 2 ^ 63 - 1)"
proof (cases "sint lo \<le> sint hi")
  case True
  have "sint hi < 2 ^ 63" "- (2 ^ 63) \<le> sint lo" using sint_lt [of hi] sint_ge [of lo] by simp_all
  moreover have "(word_of_int (sint hi - sint lo + 1) :: u64) = 0 \<longleftrightarrow> sint hi - sint lo = 2 ^ 64 - 1"
    using range_span [OF True] True by (simp add: word_uint_eq_iff split: if_splits)
  ultimately show ?thesis using True
    by (auto simp: range_i64_def Let_def rbind_eq_Inl_iff below_def word_gt_0 split: option.splits)
qed (simp add: range_i64_def)

theorem range_i64_in_range_witness:
  "range_i64 5 5 (rng_new 1) = Inr (5, snd (next_u64 (rng_new 1))) \<and> sint (5 :: i64) \<le> sint (5 :: i64)"
proof -
  have "fst (next_u64 (rng_new 1)) < rng_zone 1" by code_simp
  then have "below 1 (rng_new 1) = Inr (0, snd (next_u64 (rng_new 1)))"
    unfolding below_def by (subst below_loop.simps) (simp add: split_beta)
  then have "range_i64 5 5 (rng_new 1) = Inr (5, snd (next_u64 (rng_new 1)))"
    by (simp add: range_i64_def)
  with range_i64_in_range [OF this] show ?thesis by blast
qed

end
