(* ===== verification/Raft.thy ===== *)
theory Raft
  imports DetRng "HOL-Library.List_Lexorder"
begin

text \<open>
  The consensus node of \<^verbatim>\<open>src/crates/carolina-consensus/src/lib.rs\<close> over the in-memory storage
  of \<^verbatim>\<open>storage.rs\<close>: one definition per method, with the 64-bit counters as words. A method that
  takes \<open>&mut self\<close> and returns a \<open>CoreResult\<close> returns \<open>Inr\<close> the updated node, or \<open>Inl\<close> the
  failure together with the node as the failing call leaves it.
\<close>

section \<open>Data\<close>

type_synonym node_id = bytes

record entry =
  en_term :: u64
  en_index :: u64
  en_data :: bytes

datatype message =
    RequestVote u64 u64 u64
  | RequestVoteReply u64 bool
  | AppendEntries u64 u64 u64 "entry list" u64 u64
  | AppendEntriesReply u64 bool u64 u64 u64

record envelope =
  ev_from :: node_id
  ev_to :: node_id
  ev_msg :: message

datatype role = Follower | Candidate | Leader

record config =
  cf_members :: "node_id list"
  cf_election_ticks_min :: u32
  cf_election_ticks_max :: u32
  cf_heartbeat_ticks :: u32

definition config_new :: "node_id list \<Rightarrow> config" where
  "config_new members =
     \<lparr>cf_members = remdups_adj (sort members), cf_election_ticks_min = 10,
      cf_election_ticks_max = 20, cf_heartbeat_ticks = 3\<rparr>"

definition quorum :: "config \<Rightarrow> nat" where
  "quorum cfg = length (cf_members cfg) div 2 + 1"

record read_index =
  ri_round :: u64
  ri_index :: u64

section \<open>Persistent state\<close>

record persistent =
  ps_term :: u64
  ps_voted_for :: "node_id option"
  ps_entries :: "entry list"
  ps_snapshot_index :: u64
  ps_snapshot_term :: u64

record mem_storage =
  ms_state :: persistent
  ms_writes :: u64
  ms_compactions :: u64

definition storage_default :: mem_storage where
  "storage_default =
     \<lparr>ms_state = \<lparr>ps_term = 0, ps_voted_for = None, ps_entries = [], ps_snapshot_index = 0,
        ps_snapshot_term = 0\<rparr>,
      ms_writes = 0, ms_compactions = 0\<rparr>"

definition storage_load :: "mem_storage \<Rightarrow> persistent" where
  "storage_load st = ms_state st"

definition storage_save_term_vote :: "u64 \<Rightarrow> node_id option \<Rightarrow> mem_storage \<Rightarrow> mem_storage" where
  "storage_save_term_vote t v st =
     st\<lparr>ms_state := (ms_state st)\<lparr>ps_term := t, ps_voted_for := v\<rparr>, ms_writes := ms_writes st + 1\<rparr>"

definition storage_append :: "entry list \<Rightarrow> mem_storage \<Rightarrow> mem_storage" where
  "storage_append es st =
     st\<lparr>ms_state := (ms_state st)\<lparr>ps_entries := ps_entries (ms_state st) @ es\<rparr>,
        ms_writes := ms_writes st + 1\<rparr>"

definition storage_truncate_from :: "u64 \<Rightarrow> mem_storage \<Rightarrow> mem_storage" where
  "storage_truncate_from from st =
     st\<lparr>ms_state := (ms_state st)\<lparr>ps_entries :=
          filter (\<lambda>e. en_index e < from) (ps_entries (ms_state st))\<rparr>,
        ms_writes := ms_writes st + 1\<rparr>"

definition storage_compact_to :: "u64 \<Rightarrow> u64 \<Rightarrow> mem_storage \<Rightarrow> mem_storage" where
  "storage_compact_to index t st =
     st\<lparr>ms_state := (ms_state st)\<lparr>ps_snapshot_index := index, ps_snapshot_term := t,
          ps_entries := filter (\<lambda>e. en_index e > index) (ps_entries (ms_state st))\<rparr>,
        ms_writes := ms_writes st + 1, ms_compactions := ms_compactions st + 1\<rparr>"

section \<open>The node\<close>

record raft =
  rf_me :: node_id
  rf_cfg :: config
  rf_storage :: mem_storage
  rf_term :: u64
  rf_voted_for :: "node_id option"
  rf_log :: "entry list"
  rf_commit_index :: u64
  rf_last_delivered :: u64
  rf_role :: role
  rf_leader :: "node_id option"
  rf_votes :: "node_id set"
  rf_next_index :: "node_id \<rightharpoonup> u64"
  rf_match_index :: "node_id \<rightharpoonup> u64"
  rf_election_elapsed :: u32
  rf_heartbeat_elapsed :: u32
  rf_election_timeout :: u32
  rf_rng :: det_rng
  rf_outbox :: "envelope list"
  rf_read_round :: u64
  rf_snapshot_index :: u64
  rf_snapshot_term :: u64
  rf_applied :: u64
  rf_peer_applied :: "node_id \<rightharpoonup> u64"
  rf_followers_behind_snapshot :: u64
  rf_pending_reads :: "(u64 \<times> u64 \<times> node_id set) list"
  rf_ready_reads :: "read_index list"
  rf_became_leader_terms :: "u64 list"

type_synonym raft_result = "(exc \<times> raft) + raft"

definition last_index :: "raft \<Rightarrow> u64" where
  "last_index r = (if rf_log r = [] then rf_snapshot_index r else en_index (last (rf_log r)))"

definition first_index :: "raft \<Rightarrow> u64" where
  "first_index r = rf_snapshot_index r + 1"

definition log_pos :: "raft \<Rightarrow> u64 \<Rightarrow> nat option" where
  "log_pos r index =
     (if index \<le> rf_snapshot_index r then None else Some (unat (index - rf_snapshot_index r - 1)))"

definition entry_at :: "raft \<Rightarrow> u64 \<Rightarrow> entry option" where
  "entry_at r index =
     (if index = 0 \<or> index > last_index r then None
      else case log_pos r index of
             None \<Rightarrow> None
           | Some p \<Rightarrow> if p < length (rf_log r) then Some (rf_log r ! p) else None)"

definition last_term :: "raft \<Rightarrow> u64" where
  "last_term r = (if rf_log r = [] then rf_snapshot_term r else en_term (last (rf_log r)))"

definition term_at :: "raft \<Rightarrow> u64 \<Rightarrow> u64" where
  "term_at r index =
     (if index = rf_snapshot_index r then rf_snapshot_term r
      else case entry_at r index of None \<Rightarrow> 0 | Some e \<Rightarrow> en_term e)"

definition reset_election_timeout :: "raft \<Rightarrow> raft_result" where
  "reset_election_timeout r =
     (let cfg = rf_cfg r;
          span = ucast (max (cf_election_ticks_max cfg - cf_election_ticks_min cfg) 1) :: u64
      in case below span (rf_rng r) of
           Inl x \<Rightarrow> Inl (x, r)
         | Inr (v, rng) \<Rightarrow>
             Inr (r\<lparr>rf_election_timeout := cf_election_ticks_min cfg + ucast v, rf_rng := rng,
                    rf_election_elapsed := 0\<rparr>))"

definition raft_new :: "node_id \<Rightarrow> config \<Rightarrow> mem_storage \<Rightarrow> u64 \<Rightarrow> exc + raft" where
  "raft_new me cfg storage seed =
     (if me \<notin> set (cf_members cfg) then Inl (Fail InvalidManifest)
      else
        let p = storage_load storage;
            r = \<lparr>rf_me = me, rf_cfg = cfg, rf_storage = storage, rf_term = ps_term p,
                 rf_voted_for = ps_voted_for p, rf_log = ps_entries p, rf_commit_index = 0,
                 rf_last_delivered = ps_snapshot_index p, rf_role = Follower, rf_leader = None,
                 rf_votes = {}, rf_next_index = Map.empty, rf_match_index = Map.empty,
                 rf_election_elapsed = 0, rf_heartbeat_elapsed = 0, rf_election_timeout = 0,
                 rf_rng = rng_new (seed XOR of_nat (le_value (take 8 me))), rf_outbox = [],
                 rf_read_round = 0, rf_snapshot_index = ps_snapshot_index p,
                 rf_snapshot_term = ps_snapshot_term p, rf_applied = ps_snapshot_index p,
                 rf_peer_applied = Map.empty, rf_followers_behind_snapshot = 0,
                 rf_pending_reads = [], rf_ready_reads = [], rf_became_leader_terms = []\<rparr>
        in case reset_election_timeout r of Inl (x, _) \<Rightarrow> Inl x | Inr r' \<Rightarrow> Inr r')"

definition send :: "node_id \<Rightarrow> message \<Rightarrow> raft \<Rightarrow> raft" where
  "send to msg r = r\<lparr>rf_outbox := rf_outbox r @ [\<lparr>ev_from = rf_me r, ev_to = to, ev_msg = msg\<rparr>]\<rparr>"

definition take_outbox :: "raft \<Rightarrow> envelope list \<times> raft" where
  "take_outbox r = (rf_outbox r, r\<lparr>rf_outbox := []\<rparr>)"

function take_committed_loop :: "entry list \<Rightarrow> raft \<Rightarrow> entry list \<times> raft" where
  "take_committed_loop out r =
     (if rf_last_delivered r < rf_commit_index r
      then case entry_at r (rf_last_delivered r + 1) of
             Some e \<Rightarrow> take_committed_loop (out @ [e]) (r\<lparr>rf_last_delivered := rf_last_delivered r + 1\<rparr>)
           | None \<Rightarrow> (out, r)
      else (out, r))"
  by auto
termination
proof (relation "measure (\<lambda>(out, r). unat (rf_commit_index r) - unat (rf_last_delivered r))", goal_cases)
  case (2 out r e)
  then have "unat (rf_last_delivered r) < unat (rf_commit_index r)" by (simp add: word_less_nat_alt)
  moreover from 2 have "unat (rf_last_delivered r + 1) = unat (rf_last_delivered r) + 1"
    by (simp add: unat_inc_less)
  ultimately show ?case by simp
qed simp

declare take_committed_loop.simps [simp del]

definition take_committed :: "raft \<Rightarrow> entry list \<times> raft" where
  "take_committed r = take_committed_loop [] r"

definition set_applied :: "u64 \<Rightarrow> raft \<Rightarrow> raft" where
  "set_applied applied r =
     (let reported = max (min applied (last_index r)) (rf_snapshot_index r)
      in r\<lparr>rf_last_delivered := max (rf_last_delivered r) reported,
           rf_applied := max (rf_applied r) reported\<rparr>)"

definition map_or :: "('k \<rightharpoonup> u64) \<Rightarrow> 'k \<Rightarrow> u64 \<Rightarrow> u64" where
  "map_or m k d = (case m k of None \<Rightarrow> d | Some v \<Rightarrow> v)"

definition compaction_horizon :: "raft \<Rightarrow> u64" where
  "compaction_horizon r =
     min (fold (\<lambda>m h. if m = rf_me r then h else min h (map_or (rf_peer_applied r) m 0))
            (cf_members (rf_cfg r)) (rf_applied r))
         (rf_commit_index r)"

definition compact :: "u64 \<Rightarrow> raft \<Rightarrow> u64 \<times> raft" where
  "compact up_to r =
     (let target = min (min up_to (compaction_horizon r)) (last_index r)
      in if target \<le> rf_snapshot_index r then (rf_snapshot_index r, r)
         else
           let t = term_at r target
           in if t = 0 then (rf_snapshot_index r, r)
              else
                let keep = (case log_pos r (target + 1) of None \<Rightarrow> length (rf_log r) | Some p \<Rightarrow> p)
                in (target, r\<lparr>rf_storage := storage_compact_to target t (rf_storage r),
                      rf_log := drop (min keep (length (rf_log r))) (rf_log r),
                      rf_snapshot_index := target, rf_snapshot_term := t,
                      rf_last_delivered := max (rf_last_delivered r) target,
                      rf_applied := max (rf_applied r) target\<rparr>))"

definition take_ready_reads :: "raft \<Rightarrow> read_index list \<times> raft" where
  "take_ready_reads r = (rf_ready_reads r, r\<lparr>rf_ready_reads := []\<rparr>)"

section \<open>Roles\<close>

definition persist_term_vote :: "raft \<Rightarrow> raft" where
  "persist_term_vote r =
     r\<lparr>rf_storage := storage_save_term_vote (rf_term r) (rf_voted_for r) (rf_storage r)\<rparr>"

definition become_follower :: "u64 \<Rightarrow> node_id option \<Rightarrow> raft \<Rightarrow> raft_result" where
  "become_follower t leader r =
     (let r = (if t > rf_term r
               then persist_term_vote (r\<lparr>rf_term := t, rf_voted_for := None\<rparr>) else r)
      in reset_election_timeout (r\<lparr>rf_role := Follower, rf_leader := leader, rf_votes := {},
           rf_pending_reads := []\<rparr>))"

definition append_local :: "bytes \<Rightarrow> raft \<Rightarrow> u64 \<times> raft" where
  "append_local data r =
     (let e = \<lparr>en_term = rf_term r, en_index = last_index r + 1, en_data = data\<rparr>;
          r = r\<lparr>rf_storage := storage_append [e] (rf_storage r), rf_log := rf_log r @ [e]\<rparr>;
          li = last_index r
      in (li, r\<lparr>rf_match_index := (rf_match_index r)(rf_me r \<mapsto> li)\<rparr>))"

text \<open>\<open>next.saturating_sub(1)\<close>.\<close>

definition saturating_pred :: "u64 \<Rightarrow> u64" where
  "saturating_pred n = (if n = 0 then 0 else n - 1)"

definition send_append :: "node_id \<Rightarrow> u64 \<Rightarrow> raft \<Rightarrow> raft" where
  "send_append to read_round r =
     (let nxt = map_or (rf_next_index r) to (rf_snapshot_index r + 1)
      in if nxt \<le> rf_snapshot_index r
         then r\<lparr>rf_followers_behind_snapshot := rf_followers_behind_snapshot r + 1\<rparr>
         else
           let prev_log_index = saturating_pred nxt;
               prev_log_term = term_at r prev_log_index;
               entries = (case log_pos r nxt of
                            Some pos \<Rightarrow> if nxt \<le> last_index r then drop pos (rf_log r) else []
                          | None \<Rightarrow> [])
           in send to (AppendEntries (rf_term r) prev_log_index prev_log_term entries
                (rf_commit_index r) read_round) r)"

definition broadcast_append :: "u64 \<Rightarrow> raft \<Rightarrow> raft" where
  "broadcast_append read_round r =
     (fold (\<lambda>m r. if m \<noteq> rf_me r then send_append m read_round r else r) (cf_members (rf_cfg r)) r)
       \<lparr>rf_heartbeat_elapsed := 0\<rparr>"

definition become_leader :: "raft \<Rightarrow> raft" where
  "become_leader r =
     (let r = r\<lparr>rf_role := Leader, rf_leader := Some (rf_me r),
            rf_became_leader_terms := rf_became_leader_terms r @ [rf_term r]\<rparr>;
          nxt = last_index r + 1;
          r = fold (\<lambda>m r. r\<lparr>rf_next_index := (rf_next_index r)(m \<mapsto> nxt),
                rf_match_index := (rf_match_index r)(m \<mapsto> 0)\<rparr>) (cf_members (rf_cfg r)) r;
          r = r\<lparr>rf_match_index := (rf_match_index r)(rf_me r \<mapsto> last_index r)\<rparr>;
          r = snd (append_local [] r);
          r = r\<lparr>rf_heartbeat_elapsed := cf_heartbeat_ticks (rf_cfg r)\<rparr>
      in broadcast_append 0 r)"

definition become_candidate :: "raft \<Rightarrow> raft_result" where
  "become_candidate r =
     (let r = persist_term_vote (r\<lparr>rf_term := rf_term r + 1, rf_voted_for := Some (rf_me r)\<rparr>)
      in rbind (reset_election_timeout (r\<lparr>rf_role := Candidate, rf_leader := None,
            rf_votes := {rf_me r}\<rparr>))
          (\<lambda>r. let li = last_index r; lt = last_term r;
                   r = fold (\<lambda>m r. if m \<noteq> rf_me r then send m (RequestVote (rf_term r) li lt) r else r)
                         (cf_members (rf_cfg r)) r
               in Inr (if card (rf_votes r) \<ge> quorum (rf_cfg r) then become_leader r else r)))"

section \<open>Client operations\<close>

definition propose :: "bytes \<Rightarrow> raft \<Rightarrow> (error_code + u64) \<times> raft" where
  "propose data r =
     (if rf_role r \<noteq> Leader then (Inl AuthorityUnavailable, r)
      else if data = [] then (Inl ProtocolError, r)
      else let (idx, r) = append_local data r in (Inr idx, broadcast_append 0 r))"

definition read_barrier :: "raft \<Rightarrow> (error_code + u64) \<times> raft" where
  "read_barrier r =
     (if rf_role r \<noteq> Leader then (Inl AuthorityUnavailable, r)
      else if term_at r (rf_commit_index r) \<noteq> rf_term r then (Inl NotReady, r)
      else
        let round = rf_read_round r + 1;
            r = r\<lparr>rf_read_round := round,
              rf_pending_reads := rf_pending_reads r @ [(round, rf_commit_index r, {rf_me r})]\<rparr>
        in (Inr round, broadcast_append round r))"

definition tick :: "raft \<Rightarrow> raft_result" where
  "tick r =
     (case rf_role r of
        Leader \<Rightarrow>
          (let r = r\<lparr>rf_heartbeat_elapsed := rf_heartbeat_elapsed r + 1\<rparr>
           in Inr (if rf_heartbeat_elapsed r \<ge> cf_heartbeat_ticks (rf_cfg r)
                   then broadcast_append 0 r else r))
      | _ \<Rightarrow>
          (let r = r\<lparr>rf_election_elapsed := rf_election_elapsed r + 1\<rparr>
           in if rf_election_elapsed r \<ge> rf_election_timeout r then become_candidate r else Inr r))"

section \<open>Message handlers\<close>

definition on_request_vote :: "node_id \<Rightarrow> u64 \<Rightarrow> u64 \<Rightarrow> u64 \<Rightarrow> raft \<Rightarrow> raft_result" where
  "on_request_vote from t last_log_index last_log_term r =
     rbind (if t > rf_term r then become_follower t None r else Inr r)
       (\<lambda>r. let up_to_date = last_log_term > last_term r \<or>
                  last_log_term = last_term r \<and> last_log_index \<ge> last_index r;
                grant = t = rf_term r \<and> up_to_date \<and>
                  (rf_voted_for r = None \<or> rf_voted_for r = Some from)
            in rbind (if grant
                      then reset_election_timeout (persist_term_vote (r\<lparr>rf_voted_for := Some from\<rparr>))
                      else Inr r)
                (\<lambda>r. Inr (send from (RequestVoteReply (rf_term r) grant) r)))"

definition on_vote_reply :: "node_id \<Rightarrow> u64 \<Rightarrow> bool \<Rightarrow> raft \<Rightarrow> raft_result" where
  "on_vote_reply from t granted r =
     (if t > rf_term r then become_follower t None r
      else if rf_role r = Candidate \<and> t = rf_term r \<and> granted
      then let r = r\<lparr>rf_votes := insert from (rf_votes r)\<rparr>
           in Inr (if card (rf_votes r) \<ge> quorum (rf_cfg r) then become_leader r else r)
      else Inr r)"

text \<open>
  The scan for the first entry to append: \<open>Inr (r, first_new)\<close> with the log truncated at a
  conflict, or the corruption error of a conflict at or below the commit index.
\<close>

fun scan_entries :: "nat \<Rightarrow> entry list \<Rightarrow> raft \<Rightarrow> (exc \<times> raft) + (nat option \<times> raft)" where
  "scan_entries i [] r = Inr (None, r)"
| "scan_entries i (e # es) r =
     (if en_index e \<le> rf_snapshot_index r then scan_entries (Suc i) es r
      else case entry_at r (en_index e) of
             Some mine \<Rightarrow>
               if en_term mine = en_term e then scan_entries (Suc i) es r
               else if en_index e \<le> rf_commit_index r then Inl (Fail Corruption, r)
               else Inr (Some i, r\<lparr>rf_storage := storage_truncate_from (en_index e) (rf_storage r),
                      rf_log := (case log_pos r (en_index e) of
                                   Some pos \<Rightarrow> take pos (rf_log r) | None \<Rightarrow> rf_log r)\<rparr>)
           | None \<Rightarrow> Inr (Some i, r))"

definition append_reply :: "bool \<Rightarrow> u64 \<Rightarrow> u64 \<Rightarrow> node_id \<Rightarrow> raft \<Rightarrow> raft" where
  "append_reply success match_index read_round to r =
     send to (AppendEntriesReply (rf_term r) success match_index read_round (rf_applied r)) r"

definition on_append_entries ::
  "node_id \<Rightarrow> u64 \<Rightarrow> u64 \<Rightarrow> u64 \<Rightarrow> entry list \<Rightarrow> u64 \<Rightarrow> u64 \<Rightarrow> raft \<Rightarrow> raft_result" where
  "on_append_entries from t prev_log_index prev_log_term entries leader_commit read_round r =
     (if t < rf_term r then Inr (append_reply False (last_index r) read_round from r)
      else
        rbind (if t > rf_term r \<or> rf_role r \<noteq> Follower then become_follower t (Some from) r
               else reset_election_timeout (r\<lparr>rf_leader := Some from\<rparr>))
          (\<lambda>r. if prev_log_index > 0 \<and>
                  (prev_log_index > last_index r \<or> term_at r prev_log_index \<noteq> prev_log_term)
               then let hint = max (min (last_index r) (saturating_pred prev_log_index))
                          (rf_snapshot_index r)
                    in Inr (append_reply False hint read_round from r)
               else
                 rbind (scan_entries 0 entries r)
                   (\<lambda>(first_new, r).
                      let r = (case first_new of
                                 Some i \<Rightarrow>
                                   r\<lparr>rf_storage := storage_append (drop i entries) (rf_storage r),
                                     rf_log := rf_log r @ drop i entries\<rparr>
                               | None \<Rightarrow> r);
                          last_new = (if entries = [] then prev_log_index
                                      else en_index (last entries));
                          r = (if leader_commit > rf_commit_index r
                               then r\<lparr>rf_commit_index :=
                                      max (min leader_commit last_new) (rf_commit_index r)\<rparr>
                               else r)
                      in Inr (append_reply True last_new read_round from r))))"

definition advance_commit :: "raft \<Rightarrow> raft" where
  "advance_commit r =
     (let indices = rev (sort (map (\<lambda>m. map_or (rf_match_index r) m 0) (cf_members (rf_cfg r))));
          q = indices ! (quorum (rf_cfg r) - 1)
      in if q > rf_commit_index r \<and> term_at r q = rf_term r then r\<lparr>rf_commit_index := q\<rparr> else r)"

definition ack_reads :: "node_id \<Rightarrow> u64 \<Rightarrow> raft \<Rightarrow> raft" where
  "ack_reads from read_round r =
     (let pending = map (\<lambda>(round, index, acks).
            if round \<le> read_round then (round, index, insert from acks) else (round, index, acks))
            (rf_pending_reads r);
          done = map (\<lambda>(round, index, acks). \<lparr>ri_round = round, ri_index = index\<rparr>)
            (filter (\<lambda>(round, index, acks). round \<le> read_round \<and> card acks \<ge> quorum (rf_cfg r))
              pending)
      in r\<lparr>rf_pending_reads := filter (\<lambda>(rd, _, _). \<not> list_ex (\<lambda>d. ri_round d = rd) done) pending,
           rf_ready_reads := rf_ready_reads r @ done\<rparr>)"

definition on_append_reply ::
  "node_id \<Rightarrow> u64 \<Rightarrow> bool \<Rightarrow> u64 \<Rightarrow> u64 \<Rightarrow> u64 \<Rightarrow> raft \<Rightarrow> raft_result" where
  "on_append_reply from t success match_index read_round applied_index r =
     (let r = r\<lparr>rf_peer_applied := (rf_peer_applied r)
            (from \<mapsto> max (map_or (rf_peer_applied r) from 0) applied_index)\<rparr>
      in if t > rf_term r then become_follower t None r
         else if rf_role r \<noteq> Leader \<or> t \<noteq> rf_term r then Inr r
         else if success then
           let r = (if match_index > map_or (rf_match_index r) from 0
                    then r\<lparr>rf_match_index := (rf_match_index r)(from \<mapsto> match_index)\<rparr> else r);
               r = advance_commit (r\<lparr>rf_next_index := (rf_next_index r)(from \<mapsto> match_index + 1)\<rparr>);
               r = (if read_round > 0 then ack_reads from read_round r else r)
           in Inr (if map_or (rf_next_index r) from 1 \<le> last_index r then send_append from 0 r else r)
         else
           let r = r\<lparr>rf_next_index := (rf_next_index r)(from \<mapsto> max (match_index + 1) 1)\<rparr>
           in Inr (send_append from 0 r))"

definition raft_step :: "envelope \<Rightarrow> raft \<Rightarrow> raft_result" where
  "raft_step env r =
     (if ev_to env \<noteq> rf_me r \<or> ev_from env \<notin> set (cf_members (rf_cfg r)) then Inr r
      else case ev_msg env of
             RequestVote t li lt \<Rightarrow> on_request_vote (ev_from env) t li lt r
           | RequestVoteReply t granted \<Rightarrow> on_vote_reply (ev_from env) t granted r
           | AppendEntries t pi pt es lc rr \<Rightarrow> on_append_entries (ev_from env) t pi pt es lc rr r
           | AppendEntriesReply t ok mi rr ai \<Rightarrow> on_append_reply (ev_from env) t ok mi rr ai r)"

end
