(* ===== verification/RaftCluster.thy ===== *)
theory RaftCluster
  imports Raft
begin

text \<open>
  A cluster of consensus nodes that exchange messages over a network that may lose, duplicate, delay
  and reorder them, with clock ticks, client operations, log compaction and restarts from storage in
  any order. The history variable \<open>cl_ballots\<close> records every vote a node has ever stored. The main
  result is election safety: a term has at most one leader, over the whole run.
\<close>

section \<open>What a call does to the vote of a node\<close>

definition granted_to :: "envelope list \<Rightarrow> (node_id \<times> u64 \<times> node_id) list" where
  "granted_to es =
     List.map_filter (\<lambda>e. case ev_msg e of RequestVoteReply t True \<Rightarrow> Some (ev_from e, t, ev_to e) | _ \<Rightarrow> None) es"

lemma granted_to_append [simp]: "granted_to (xs @ ys) = granted_to xs @ granted_to ys"
  by (simp add: granted_to_def map_filter_def)

lemma granted_to_Cons [simp]:
  "granted_to [] = []"
  "granted_to (e # es) = (case ev_msg e of RequestVoteReply t True \<Rightarrow> [(ev_from e, t, ev_to e)] | _ \<Rightarrow> []) @ granted_to es"
  by (simp_all add: granted_to_def map_filter_simps split: message.splits bool.splits)

record vote_view =
  vv_me :: node_id
  vv_cfg :: config
  vv_term :: u64
  vv_vote :: "node_id option"
  vv_stored :: "u64 \<times> node_id option"
  vv_role :: role
  vv_votes :: "node_id set"
  vv_granted :: "(node_id \<times> u64 \<times> node_id) list"

definition view :: "raft \<Rightarrow> vote_view" where
  "view r =
     \<lparr>vv_me = rf_me r, vv_cfg = rf_cfg r, vv_term = rf_term r, vv_vote = rf_voted_for r,
      vv_stored = (ps_term (ms_state (rf_storage r)), ps_voted_for (ms_state (rf_storage r))),
      vv_role = rf_role r, vv_votes = rf_votes r, vv_granted = granted_to (rf_outbox r)\<rparr>"

named_theorems view_simps

lemma view_updates [view_simps]:
  "view (r\<lparr>rf_log := a1\<rparr>) = view r" "view (r\<lparr>rf_commit_index := a2\<rparr>) = view r"
  "view (r\<lparr>rf_last_delivered := a3\<rparr>) = view r" "view (r\<lparr>rf_leader := a4\<rparr>) = view r"
  "view (r\<lparr>rf_next_index := a5\<rparr>) = view r" "view (r\<lparr>rf_match_index := a6\<rparr>) = view r"
  "view (r\<lparr>rf_election_elapsed := a7\<rparr>) = view r" "view (r\<lparr>rf_heartbeat_elapsed := a8\<rparr>) = view r"
  "view (r\<lparr>rf_election_timeout := a9\<rparr>) = view r" "view (r\<lparr>rf_rng := b1\<rparr>) = view r"
  "view (r\<lparr>rf_read_round := b2\<rparr>) = view r" "view (r\<lparr>rf_snapshot_index := b3\<rparr>) = view r"
  "view (r\<lparr>rf_snapshot_term := b4\<rparr>) = view r" "view (r\<lparr>rf_applied := b5\<rparr>) = view r"
  "view (r\<lparr>rf_peer_applied := b6\<rparr>) = view r" "view (r\<lparr>rf_followers_behind_snapshot := b7\<rparr>) = view r"
  "view (r\<lparr>rf_pending_reads := b8\<rparr>) = view r" "view (r\<lparr>rf_ready_reads := b9\<rparr>) = view r"
  "view (r\<lparr>rf_became_leader_terms := c1\<rparr>) = view r"
  by (simp_all add: view_def)

lemma view_storage [view_simps]:
  "view (r\<lparr>rf_storage := storage_append es (rf_storage r)\<rparr>) = view r"
  "view (r\<lparr>rf_storage := storage_truncate_from i (rf_storage r)\<rparr>) = view r"
  "view (r\<lparr>rf_storage := storage_compact_to i t (rf_storage r)\<rparr>) = view r"
  by (simp_all add: view_def storage_append_def storage_truncate_from_def storage_compact_to_def)

lemma view_send [view_simps]:
  "(\<And>t. msg \<noteq> RequestVoteReply t True) \<Longrightarrow> view (send to msg r) = view r"
  by (cases msg) (auto simp: view_def send_def split: bool.splits)

text \<open>The node a call leaves behind, whether it succeeds or fails.\<close>

fun left_node :: "raft_result \<Rightarrow> raft" where
  "left_node (Inl (_, r)) = r"
| "left_node (Inr r) = r"

lemma left_node_rbind:
  "left_node (rbind res f) = (case res of Inl (_, r) \<Rightarrow> r | Inr r \<Rightarrow> left_node (f r))"
  by (cases res) (auto simp: rbind_def)

lemma view_fold [view_simps]: "(\<And>m r. view (f m r) = view r) \<Longrightarrow> view (fold f ms r) = view r"
  by (induction ms arbitrary: r) simp_all

lemma view_reset [view_simps]: "view (left_node (reset_election_timeout r)) = view r"
  by (auto simp: reset_election_timeout_def Let_def view_def split: sum.splits)

lemma view_send_append [view_simps]: "view (send_append to rr r) = view r"
  by (simp add: send_append_def Let_def view_simps)

lemma view_broadcast [view_simps]: "view (broadcast_append rr r) = view r"
  by (simp add: broadcast_append_def view_simps)

lemma view_append_local [view_simps]: "view (snd (append_local d r)) = view r"
  by (simp add: append_local_def Let_def view_simps)

lemma view_become_leader [view_simps]: "view (become_leader r) = (view r)\<lparr>vv_role := Leader\<rparr>"
proof -
  have role: "view (r\<lparr>rf_role := Leader\<rparr>) = (view r)\<lparr>vv_role := Leader\<rparr>" for r
    by (simp add: view_def)
  show ?thesis
    unfolding become_leader_def Let_def
    by (simp add: view_simps role)
qed

lemma view_advance_commit [view_simps]: "view (advance_commit r) = view r"
  by (simp add: advance_commit_def Let_def view_simps)

lemma view_ack_reads [view_simps]: "view (ack_reads from rr r) = view r"
  by (simp add: ack_reads_def Let_def view_simps)

lemma view_append_reply [view_simps]: "view (append_reply ok mi rr to r) = view r"
  by (simp add: append_reply_def view_simps)

lemma view_scan_entries:
  "scan_entries i es r = Inl (x, r') \<Longrightarrow> view r' = view r"
  "scan_entries i es r = Inr (j, r') \<Longrightarrow> view r' = view r"
  by (induction i es r rule: scan_entries.induct)
    (auto simp: view_simps split: if_splits option.splits)

definition stepped_down :: "u64 \<Rightarrow> vote_view \<Rightarrow> vote_view" where
  "stepped_down t v =
     (if t > vv_term v then v\<lparr>vv_term := t, vv_vote := None, vv_stored := (t, None)\<rparr> else v)
       \<lparr>vv_role := Follower, vv_votes := {}\<rparr>"

lemma view_become_follower [view_simps]:
  "view (left_node (become_follower t l r)) = stepped_down t (view r)"
  unfolding become_follower_def Let_def view_reset
  by (simp add: view_def stepped_down_def persist_term_vote_def storage_save_term_vote_def)

lemma view_Inr:
  "reset_election_timeout r = Inr r' \<Longrightarrow> view r' = view r"
  "become_follower t l r = Inr r' \<Longrightarrow> view r' = stepped_down t (view r)"
  using view_reset [of r] view_become_follower [of t l r] by simp_all

lemma view_Inl:
  "reset_election_timeout r = Inl (x, r') \<Longrightarrow> view r' = view r"
  "become_follower t l r = Inl (x, r') \<Longrightarrow> view r' = stepped_down t (view r)"
  using view_reset [of r] view_become_follower [of t l r] by simp_all

definition candidacy :: "vote_view \<Rightarrow> vote_view" where
  "candidacy v = v\<lparr>vv_term := vv_term v + 1, vv_vote := Some (vv_me v), vv_stored := (vv_term v + 1, Some (vv_me v)),
     vv_role := Candidate, vv_votes := {vv_me v}\<rparr>"

lemma view_become_candidate:
  "view (left_node (become_candidate r)) =
     (if quorum (rf_cfg r) \<le> 1 \<and> \<not> isl (reset_election_timeout r)
      then (candidacy (view r))\<lparr>vv_role := Leader\<rparr> else candidacy (view r))"
proof -
  define r1 where "r1 = persist_term_vote (r\<lparr>rf_term := rf_term r + 1, rf_voted_for := Some (rf_me r)\<rparr>)
    \<lparr>rf_role := Candidate, rf_leader := None, rf_votes := {rf_me r}\<rparr>"
  have v1: "view r1 = candidacy (view r)"
    by (simp add: r1_def view_def candidacy_def persist_term_vote_def storage_save_term_vote_def)
  have eq: "become_candidate r = rbind (reset_election_timeout r1)
      (\<lambda>r. let li = last_index r; lt = last_term r;
             r = fold (\<lambda>m r. if m \<noteq> rf_me r then send m (RequestVote (rf_term r) li lt) r else r)
                   (cf_members (rf_cfg r)) r
         in Inr (if card (rf_votes r) \<ge> quorum (rf_cfg r) then become_leader r else r))"
    by (simp add: become_candidate_def r1_def persist_term_vote_def Let_def)
  have same: "isl (reset_election_timeout r) \<longleftrightarrow> isl (reset_election_timeout r1)"
    by (simp add: reset_election_timeout_def r1_def persist_term_vote_def Let_def split: sum.splits)
  show ?thesis
  proof (cases "reset_election_timeout r1")
    case (Inl p)
    then show ?thesis using v1 view_Inl(1) [of r1] same by (cases p) (simp add: eq rbind_def)
  next
    case (Inr r2)
    define r3 where "r3 = fold (\<lambda>m r. if m \<noteq> rf_me r then send m (RequestVote (rf_term r) (last_index r2) (last_term r2)) r else r)
                   (cf_members (rf_cfg r2)) r2"
    have v3: "view r3 = candidacy (view r)"
      unfolding r3_def using view_Inr(1) [OF Inr] v1 by (simp add: view_simps)
    then have "rf_votes r3 = {rf_me r}" "rf_cfg r3 = rf_cfg r" by (simp_all add: view_def candidacy_def)
    with Inr v3 same show ?thesis by (simp add: eq rbind_def Let_def r3_def [symmetric] view_simps)
  qed
qed

section \<open>The effect of a call\<close>

definition vote_effect :: "node_id set \<Rightarrow> vote_view \<Rightarrow> vote_view \<Rightarrow> bool" where
  "vote_effect W v v' \<longleftrightarrow>
     vv_me v' = vv_me v \<and> vv_cfg v' = vv_cfg v \<and> vv_term v \<le> vv_term v' \<and>
     (vv_stored v = (vv_term v, vv_vote v) \<longrightarrow> vv_stored v' = (vv_term v', vv_vote v')) \<and>
     (vv_term v' = vv_term v \<longrightarrow> vv_vote v = None \<or> vv_vote v' = vv_vote v) \<and>
     (\<forall>(n, t, c) \<in> set (vv_granted v').
        (n, t, c) \<in> set (vv_granted v) \<or> n = vv_me v \<and> t = vv_term v' \<and> vv_vote v' = Some c) \<and>
     (vv_role v' \<noteq> Follower \<longrightarrow>
        vv_term v' = vv_term v \<and> vv_role v \<noteq> Follower \<and> vv_votes v' \<subseteq> vv_votes v \<union> W \<or>
        vv_vote v' = Some (vv_me v) \<and> vv_votes v' = {vv_me v}) \<and>
     (vv_role v' = Leader \<longrightarrow>
        vv_role v = Leader \<and> vv_votes v' = vv_votes v \<or> quorum (vv_cfg v) \<le> card (vv_votes v'))"

lemma effect_refl [simp]: "vote_effect W v v"
  by (auto simp: vote_effect_def)

lemma effect_stepped_down: "vote_effect W v (stepped_down t v)"
  by (auto simp: vote_effect_def stepped_down_def)

lemma effect_candidacy:
  assumes "vv_term v \<noteq> - 1"
  shows "vote_effect W v (candidacy v)"
    and "quorum (vv_cfg v) \<le> 1 \<Longrightarrow> vote_effect W v ((candidacy v)\<lparr>vv_role := Leader\<rparr>)"
proof -
  have "vv_term v + 1 \<noteq> 0" using assms by (simp add: eq_neg_iff_add_eq_0)
  then have "vv_term v \<le> vv_term v + 1" by uint_arith
  then show "vote_effect W v (candidacy v)"
    "quorum (vv_cfg v) \<le> 1 \<Longrightarrow> vote_effect W v ((candidacy v)\<lparr>vv_role := Leader\<rparr>)"
    by (auto simp: vote_effect_def candidacy_def)
qed

lemma effect_tick: "rf_term r \<noteq> - 1 \<Longrightarrow> vote_effect W (view r) (view (left_node (tick r)))"
proof -
  assume t: "rf_term r \<noteq> - 1"
  have cand: "vote_effect W (view r') (view (left_node (become_candidate r')))"
    if "rf_term r' \<noteq> - 1" for r'
    using view_become_candidate [of r'] effect_candidacy [of "view r'" W] that
    by (auto simp: view_def)
  have same: "view (r\<lparr>rf_election_elapsed := rf_election_elapsed r + 1\<rparr>) = view r" by (simp add: view_simps)
  show ?thesis
    using cand [of "r\<lparr>rf_election_elapsed := rf_election_elapsed r + 1\<rparr>"] t
    by (auto simp: tick_def Let_def view_simps split: role.splits)
qed

definition voted :: "node_id \<Rightarrow> vote_view \<Rightarrow> vote_view" where
  "voted c v = v\<lparr>vv_vote := Some c, vv_stored := (vv_term v, Some c)\<rparr>"

lemma view_voted: "view (persist_term_vote (r\<lparr>rf_voted_for := Some c\<rparr>)) = voted c (view r)"
  by (simp add: view_def voted_def persist_term_vote_def storage_save_term_vote_def)

lemma view_reply:
  "view (send to (RequestVoteReply t g) r) = (if g then (view r)\<lparr>vv_granted := vv_granted (view r) @ [(rf_me r, t, to)]\<rparr> else view r)"
  by (cases g) (simp_all add: view_def send_def)

lemma effect_voted:
  assumes "vv_vote v = None \<or> vv_vote v = Some c"
  shows "vote_effect W v (voted c v)"
    and "vote_effect W v ((voted c v)\<lparr>vv_granted := vv_granted v @ [(vv_me v, vv_term v, c)]\<rparr>)"
  using assms by (auto simp: vote_effect_def voted_def)

lemma effect_first_down:
  assumes "vote_effect W (stepped_down t v) v'" "vv_term v < t"
  shows "vote_effect W v v'"
  using assms by (auto simp: vote_effect_def stepped_down_def)

definition vote_request :: "node_id \<Rightarrow> u64 \<Rightarrow> u64 \<Rightarrow> u64 \<Rightarrow> raft \<Rightarrow> raft_result" where
  "vote_request from t li lt r =
     (let up_to_date = lt > last_term r \<or> lt = last_term r \<and> li \<ge> last_index r;
          grant = t = rf_term r \<and> up_to_date \<and> (rf_voted_for r = None \<or> rf_voted_for r = Some from)
      in rbind (if grant then reset_election_timeout (persist_term_vote (r\<lparr>rf_voted_for := Some from\<rparr>)) else Inr r)
           (\<lambda>r. Inr (send from (RequestVoteReply (rf_term r) grant) r)))"

lemma effect_vote_request: "vote_effect W (view r) (view (left_node (vote_request from t li lt r)))"
proof (cases "t = rf_term r \<and> (lt > last_term r \<or> lt = last_term r \<and> li \<ge> last_index r) \<and>
    (rf_voted_for r = None \<or> rf_voted_for r = Some from)")
  case True
  define r1 where "r1 = persist_term_vote (r\<lparr>rf_voted_for := Some from\<rparr>)"
  have v: "vv_vote (view r) = None \<or> vv_vote (view r) = Some from" using True by (simp add: view_def)
  have eq: "vote_request from t li lt r =
      rbind (reset_election_timeout r1) (\<lambda>r. Inr (send from (RequestVoteReply (rf_term r) True) r))"
    using True by (simp add: vote_request_def r1_def Let_def)
  show ?thesis
  proof (cases "reset_election_timeout r1")
    case (Inl p)
    then show ?thesis using effect_voted(1) [OF v] view_Inl(1) [of r1]
      by (cases p) (simp add: eq rbind_def r1_def view_voted)
  next
    case (Inr r2)
    then have v2: "view r2 = voted from (view r)" using view_Inr(1) [of r1] by (simp add: r1_def view_voted)
    then have "rf_term r2 = rf_term r" "rf_me r2 = rf_me r" "vv_granted (view r2) = vv_granted (view r)"
      by (simp_all add: view_def voted_def)
    with effect_voted(2) [OF v] Inr v2 show ?thesis by (simp add: eq rbind_def view_reply) (simp add: view_def)
  qed
next
  case False
  then show ?thesis by (auto simp: vote_request_def Let_def rbind_def view_reply)
qed

lemma on_request_vote_eq:
  "on_request_vote from t li lt r =
     rbind (if t > rf_term r then become_follower t None r else Inr r) (vote_request from t li lt)"
  by (simp add: on_request_vote_def vote_request_def [abs_def])

lemma effect_request_vote: "vote_effect W (view r) (view (left_node (on_request_vote from t li lt r)))"
proof (cases "t > rf_term r")
  case True
  then have lt: "vv_term (view r) < t" by (simp add: view_def)
  show ?thesis
  proof (cases "become_follower t None r")
    case (Inl p)
    then show ?thesis using True effect_stepped_down view_Inl(2) [of t None r]
      by (cases p) (simp add: on_request_vote_eq rbind_def)
  next
    case (Inr r1)
    then show ?thesis
      using True effect_first_down [OF _ lt] effect_vote_request [of W r1] view_Inr(2) [OF Inr]
      by (simp add: on_request_vote_eq rbind_def)
  qed
qed (simp add: on_request_vote_eq rbind_def effect_vote_request)

lemma effect_vote_reply:
  assumes "granted \<Longrightarrow> t = rf_term r \<Longrightarrow> from \<in> W"
  shows "vote_effect W (view r) (view (left_node (on_vote_reply from t granted r)))"
proof -
  have votes: "view (r\<lparr>rf_votes := V\<rparr>) = (view r)\<lparr>vv_votes := V\<rparr>" for V by (simp add: view_def)
  have "vote_effect W (view r) ((view r)\<lparr>vv_votes := insert from (rf_votes r)\<rparr>)"
    "quorum (rf_cfg r) \<le> card (insert from (rf_votes r)) \<Longrightarrow>
       vote_effect W (view r) ((view r)\<lparr>vv_votes := insert from (rf_votes r), vv_role := Leader\<rparr>)"
    if "rf_role r = Candidate" "from \<in> W"
    using that by (auto simp: vote_effect_def view_def)
  with assms show ?thesis
    by (auto simp: on_vote_reply_def Let_def view_simps votes effect_stepped_down)
qed

lemma effect_append_entries:
  "vote_effect W (view r) (view (left_node (on_append_entries from t pi pt es lc rr r)))"
proof (cases "t < rf_term r")
  case True
  then show ?thesis by (simp add: on_append_entries_def view_simps)
next
  case False
  define start where "start = (if t > rf_term r \<or> rf_role r \<noteq> Follower then become_follower t (Some from) r
               else reset_election_timeout (r\<lparr>rf_leader := Some from\<rparr>))"
  have start: "vote_effect W (view r) (view (left_node start))"
    by (simp add: start_def view_simps effect_stepped_down)
  define rest where "rest = (\<lambda>r. if pi > 0 \<and> (pi > last_index r \<or> term_at r pi \<noteq> pt)
               then let hint = max (min (last_index r) (saturating_pred pi)) (rf_snapshot_index r)
                    in Inr (append_reply False hint rr from r)
               else
                 rbind (scan_entries 0 es r)
                   (\<lambda>(first_new, r).
                      let r = (case first_new of
                                 Some i \<Rightarrow>
                                   r\<lparr>rf_storage := storage_append (drop i es) (rf_storage r),
                                     rf_log := rf_log r @ drop i es\<rparr>
                               | None \<Rightarrow> r);
                          last_new = (if es = [] then pi else en_index (last es));
                          r = (if lc > rf_commit_index r
                               then r\<lparr>rf_commit_index := max (min lc last_new) (rf_commit_index r)\<rparr>
                               else r)
                      in Inr (append_reply True last_new rr from r)))"
  have upd: "view (case f of Some i \<Rightarrow> r\<lparr>rf_storage := storage_append (drop i es) (rf_storage r), rf_log := rf_log r @ drop i es\<rparr>
      | None \<Rightarrow> r) = view r" for f r
    by (cases f) (simp_all add: view_simps)
  have rest: "view (left_node (rest r1)) = view r1" for r1
  proof (cases "scan_entries 0 es r1")
    case (Inl p)
    then show ?thesis using view_scan_entries(1) [of 0 es r1]
      by (cases p) (simp add: rest_def rbind_def view_simps Let_def)
  next
    case (Inr p)
    then show ?thesis using view_scan_entries(2) [of 0 es r1]
      by (cases p) (simp add: rest_def rbind_def view_simps upd Let_def)
  qed
  have "on_append_entries from t pi pt es lc rr r = rbind start rest"
    using False by (simp add: on_append_entries_def start_def rest_def)
  with start rest show ?thesis by (auto simp: left_node_rbind split: sum.splits)
qed

lemma effect_append_reply: "vote_effect W (view r) (view (left_node (on_append_reply from t ok mi rr ai r)))"
  unfolding on_append_reply_def Let_def by (auto simp: view_simps effect_stepped_down)

section \<open>The cluster\<close>

datatype action =
    ATick
  | ADeliver envelope
  | APropose bytes
  | AReadBarrier
  | ATakeCommitted
  | ASetApplied u64
  | ACompact u64
  | ATakeReads
  | ARestart u64

definition restarted :: "u64 \<Rightarrow> raft \<Rightarrow> exc + raft" where
  "restarted seed r = raft_new (rf_me r) (rf_cfg r) (rf_storage r) seed"

fun node_act :: "action \<Rightarrow> raft \<Rightarrow> raft" where
  "node_act ATick r = left_node (tick r)"
| "node_act (ADeliver e) r = left_node (raft_step e r)"
| "node_act (APropose d) r = snd (propose d r)"
| "node_act AReadBarrier r = snd (read_barrier r)"
| "node_act ATakeCommitted r = snd (take_committed r)"
| "node_act (ASetApplied i) r = set_applied i r"
| "node_act (ACompact i) r = snd (compact i r)"
| "node_act ATakeReads r = snd (take_ready_reads r)"
| "node_act (ARestart seed) r = (case restarted seed r of Inl _ \<Rightarrow> r | Inr r' \<Rightarrow> r')"

record cluster =
  cl_nodes :: "node_id \<Rightarrow> raft"
  cl_net :: "envelope set"
  cl_ballots :: "(node_id \<times> u64 \<times> node_id) set"

text \<open>
  A call ends with the transport taking the outbox. Terms stay below the last 64-bit value, only
  messages that were sent are delivered, and a restart is one that comes up.
\<close>

definition settle :: "node_id \<Rightarrow> raft \<Rightarrow> cluster \<Rightarrow> cluster" where
  "settle n r c =
     (case take_outbox r of (out, r') \<Rightarrow>
        c\<lparr>cl_nodes := (cl_nodes c)(n := r'), cl_net := cl_net c \<union> set out,
          cl_ballots := cl_ballots c \<union> (\<lambda>v. (n, rf_term r, v)) ` set_option (rf_voted_for r)\<rparr>)"

fun enabled :: "action \<Rightarrow> raft \<Rightarrow> envelope set \<Rightarrow> bool" where
  "enabled ATick r net \<longleftrightarrow> rf_term r \<noteq> - 1"
| "enabled (ADeliver e) r net \<longleftrightarrow> e \<in> net"
| "enabled (ARestart seed) r net \<longleftrightarrow> (case restarted seed r of Inl _ \<Rightarrow> False | Inr _ \<Rightarrow> True)"
| "enabled _ r net \<longleftrightarrow> True"

inductive cluster_step :: "config \<Rightarrow> cluster \<Rightarrow> cluster \<Rightarrow> bool" for cfg where
  call: "n \<in> set (cf_members cfg) \<Longrightarrow> enabled a (cl_nodes c n) (cl_net c) \<Longrightarrow>
    cluster_step cfg c (settle n (node_act a (cl_nodes c n)) c)"

inductive_cases cluster_stepE: "cluster_step cfg c c'"

definition cluster_init :: "config \<Rightarrow> cluster \<Rightarrow> bool" where
  "cluster_init cfg c \<longleftrightarrow>
     (\<forall>n \<in> set (cf_members cfg). \<exists>seed. raft_new n cfg storage_default seed = Inr (cl_nodes c n)) \<and>
     cl_net c = {} \<and> cl_ballots c = {}"

definition leads :: "config \<Rightarrow> cluster \<Rightarrow> node_id \<Rightarrow> u64 \<Rightarrow> bool" where
  "leads cfg c n t \<longleftrightarrow>
     n \<in> set (cf_members cfg) \<and> rf_role (cl_nodes c n) = Leader \<and> rf_term (cl_nodes c n) = t"

section \<open>Every call is a vote effect\<close>

lemma view_raft_new:
  assumes "raft_new me cfg st seed = Inr r"
  shows "view r = \<lparr>vv_me = me, vv_cfg = cfg, vv_term = ps_term (ms_state st), vv_vote = ps_voted_for (ms_state st),
    vv_stored = (ps_term (ms_state st), ps_voted_for (ms_state st)), vv_role = Follower, vv_votes = {}, vv_granted = []\<rparr>"
  using assms view_Inr(1)
  by (auto simp: raft_new_def Let_def view_def storage_load_def split: if_splits sum.splits)

lemma view_take_committed: "view (snd (take_committed r)) = view r"
proof -
  have "view (snd (take_committed_loop out r)) = view r" for out
  proof (induction out r rule: take_committed_loop.induct)
    case (1 out r)
    then show ?case
      by (subst take_committed_loop.simps) (auto simp: view_simps split: option.splits)
  qed
  then show ?thesis by (simp add: take_committed_def)
qed

lemma view_client [view_simps]:
  "view (snd (propose d r)) = view r" "view (snd (read_barrier r)) = view r"
  "view (set_applied i r) = view r" "view (snd (compact i r)) = view r" "view (snd (take_ready_reads r)) = view r"
proof -
  show "view (snd (propose d r)) = view r"
    using view_append_local [of d r]
    by (cases "append_local d r") (simp add: propose_def view_broadcast)
qed (simp_all add: read_barrier_def set_applied_def compact_def take_ready_reads_def Let_def view_simps)

definition grants :: "action \<Rightarrow> raft \<Rightarrow> node_id set" where
  "grants a r = (case a of ADeliver e \<Rightarrow>
     if ev_to e = rf_me r \<and> ev_from e \<in> set (cf_members (rf_cfg r)) \<and> ev_msg e = RequestVoteReply (rf_term r) True
     then {ev_from e} else {} | _ \<Rightarrow> {})"

lemma effect_step: "vote_effect (grants (ADeliver e) r) (view r) (view (left_node (raft_step e r)))"
  by (cases "ev_msg e")
    (auto simp: raft_step_def grants_def effect_request_vote effect_append_entries effect_append_reply
      intro!: effect_vote_reply)

lemma effect_act:
  assumes "enabled a r net" "vv_stored (view r) = (vv_term (view r), vv_vote (view r))" "vv_granted (view r) = []"
  shows "vote_effect (grants a r) (view r) (view (node_act a r))"
proof (cases a)
  case ATick
  with assms show ?thesis by (simp add: effect_tick)
next
  case (ADeliver e)
  then show ?thesis using effect_step [of e r] by simp
next
  case (ARestart seed)
  with assms obtain r' where r': "raft_new (rf_me r) (rf_cfg r) (rf_storage r) seed = Inr r'"
    by (auto simp: restarted_def split: sum.splits)
  with assms ARestart view_raft_new [OF r'] show ?thesis
    by (simp add: restarted_def vote_effect_def) (simp add: view_def)
qed (simp_all add: view_simps view_take_committed)

section \<open>Election safety\<close>

definition vote_ok :: "config \<Rightarrow> cluster \<Rightarrow> node_id \<Rightarrow> bool" where
  "vote_ok cfg c n \<longleftrightarrow>
     (let r = cl_nodes c n in
      rf_me r = n \<and> rf_cfg r = cfg \<and> vv_stored (view r) = (rf_term r, rf_voted_for r) \<and> rf_outbox r = [] \<and>
      (\<forall>v. rf_voted_for r = Some v \<longrightarrow> (n, rf_term r, v) \<in> cl_ballots c) \<and>
      (\<forall>t v. (n, t, v) \<in> cl_ballots c \<longrightarrow> t \<le> rf_term r \<and> (t = rf_term r \<longrightarrow> rf_voted_for r = Some v)) \<and>
      (rf_role r \<noteq> Follower \<longrightarrow> rf_voted_for r = Some n \<and> rf_votes r \<subseteq> set (cf_members cfg) \<and>
         (\<forall>w \<in> rf_votes r. (w, rf_term r, n) \<in> cl_ballots c)) \<and>
      (rf_role r = Leader \<longrightarrow> quorum cfg \<le> card (rf_votes r)))"

definition cluster_inv :: "config \<Rightarrow> cluster \<Rightarrow> bool" where
  "cluster_inv cfg c \<longleftrightarrow>
     (\<forall>n \<in> set (cf_members cfg). vote_ok cfg c n) \<and>
     (\<forall>n t v v'. (n, t, v) \<in> cl_ballots c \<longrightarrow> (n, t, v') \<in> cl_ballots c \<longrightarrow> v = v') \<and>
     (\<forall>e t. e \<in> cl_net c \<longrightarrow> ev_msg e = RequestVoteReply t True \<longrightarrow> (ev_from e, t, ev_to e) \<in> cl_ballots c)"

lemma raft_new_outbox: "raft_new me cfg st seed = Inr r \<Longrightarrow> rf_outbox r = []"
  by (auto simp: raft_new_def reset_election_timeout_def Let_def split: if_splits sum.splits)

lemma cluster_inv_init: "cluster_init cfg c \<Longrightarrow> cluster_inv cfg c"
proof -
  assume init: "cluster_init cfg c"
  have "vote_ok cfg c n" if n: "n \<in> set (cf_members cfg)" for n
  proof -
    obtain seed where new: "raft_new n cfg storage_default seed = Inr (cl_nodes c n)"
      using init n by (auto simp: cluster_init_def)
    then have "rf_outbox (cl_nodes c n) = []"
      by (rule raft_new_outbox)
    with view_raft_new [OF new] init show ?thesis
      by (simp add: vote_ok_def view_def storage_default_def cluster_init_def Let_def)
  qed
  with init show ?thesis by (simp add: cluster_inv_def cluster_init_def)
qed

lemma granted_to_iff:
  "(n, t, v) \<in> set (granted_to es) \<longleftrightarrow>
     (\<exists>e \<in> set es. ev_from e = n \<and> ev_to e = v \<and> ev_msg e = RequestVoteReply t True)"
  by (induction es) (auto split: message.splits bool.splits)

lemma settle_fields [simp]:
  "cl_nodes (settle n r c) = (cl_nodes c)(n := r\<lparr>rf_outbox := []\<rparr>)"
  "cl_net (settle n r c) = cl_net c \<union> set (rf_outbox r)"
  "cl_ballots (settle n r c) = cl_ballots c \<union> (\<lambda>v. (n, rf_term r, v)) ` set_option (rf_voted_for r)"
  by (simp_all add: settle_def take_outbox_def)

lemma vote_ok_other: "m \<noteq> n \<Longrightarrow> vote_ok cfg c m \<Longrightarrow> vote_ok cfg (settle n r c) m"
  by (auto simp: vote_ok_def Let_def)

lemma vote_ok_self:
  assumes inv: "cluster_inv cfg c" and n: "n \<in> set (cf_members cfg)"
    and eff: "vote_effect W (view (cl_nodes c n)) (view r)"
    and W: "W \<subseteq> set (cf_members cfg)" "\<And>w. w \<in> W \<Longrightarrow> (w, rf_term (cl_nodes c n), n) \<in> cl_ballots c"
  shows "vote_ok cfg (settle n r c) n"
proof -
  define r0 where "r0 = cl_nodes c n"
  have ok: "vote_ok cfg c n" using inv n by (simp add: cluster_inv_def)
  have old: "\<And>t v. (n, t, v) \<in> cl_ballots c \<Longrightarrow> t \<le> rf_term r0 \<and> (t = rf_term r0 \<longrightarrow> rf_voted_for r0 = Some v)"
    using ok by (auto simp: vote_ok_def Let_def r0_def)
  have e: "rf_me r = n" "rf_cfg r = cfg" "rf_term r0 \<le> rf_term r"
    "vv_stored (view r) = (rf_term r, rf_voted_for r)"
    "rf_term r = rf_term r0 \<Longrightarrow> rf_voted_for r0 = None \<or> rf_voted_for r = rf_voted_for r0"
    "rf_role r \<noteq> Follower \<Longrightarrow> rf_term r = rf_term r0 \<and> rf_role r0 \<noteq> Follower \<and> rf_votes r \<subseteq> rf_votes r0 \<union> W \<or>
        rf_voted_for r = Some n \<and> rf_votes r = {n}"
    "rf_role r = Leader \<Longrightarrow> rf_role r0 = Leader \<and> rf_votes r = rf_votes r0 \<or> quorum cfg \<le> card (rf_votes r)"
    using eff ok by (auto simp: vote_effect_def vote_ok_def Let_def view_def r0_def)
  have ballots: "t \<le> rf_term r \<and> (t = rf_term r \<longrightarrow> rf_voted_for r = Some v)"
    if "(n, t, v) \<in> cl_ballots c" for t v
    using old [OF that] e(3,5) by (metis antisym option.distinct(1) order_trans)
  have cand: "rf_voted_for r = Some n \<and> rf_votes r \<subseteq> set (cf_members cfg) \<and>
      (\<forall>w \<in> rf_votes r. (w, rf_term r, n) \<in> cl_ballots (settle n r c))" if "rf_role r \<noteq> Follower"
    using e(6) [OF that]
  proof
    assume l: "rf_term r = rf_term r0 \<and> rf_role r0 \<noteq> Follower \<and> rf_votes r \<subseteq> rf_votes r0 \<union> W"
    then have "rf_voted_for r0 = Some n" "rf_votes r0 \<subseteq> set (cf_members cfg)"
      "\<forall>w \<in> rf_votes r0. (w, rf_term r0, n) \<in> cl_ballots c"
      using ok by (auto simp: vote_ok_def Let_def r0_def)
    with l e(5) W show ?thesis by (auto simp: r0_def)
  next
    assume "rf_voted_for r = Some n \<and> rf_votes r = {n}"
    with n show ?thesis by auto
  qed
  have lead: "quorum cfg \<le> card (rf_votes r)" if "rf_role r = Leader"
    using e(7) [OF that] ok by (auto simp: vote_ok_def Let_def r0_def)
  show ?thesis
    using e(1,2,4) ballots cand lead by (auto simp: vote_ok_def Let_def view_def)
qed

lemma cluster_invD:
  assumes "cluster_inv cfg c"
  shows "n \<in> set (cf_members cfg) \<Longrightarrow> vote_ok cfg c n"
    and "(n, t, v) \<in> cl_ballots c \<Longrightarrow> (n, t, v') \<in> cl_ballots c \<Longrightarrow> v = v'"
    and "e \<in> cl_net c \<Longrightarrow> ev_msg e = RequestVoteReply t True \<Longrightarrow> (ev_from e, t, ev_to e) \<in> cl_ballots c"
  using assms unfolding cluster_inv_def by blast+

lemma cluster_invI:
  assumes "\<And>n. n \<in> set (cf_members cfg) \<Longrightarrow> vote_ok cfg c n"
    and "\<And>n t v v'. (n, t, v) \<in> cl_ballots c \<Longrightarrow> (n, t, v') \<in> cl_ballots c \<Longrightarrow> v = v'"
    and "\<And>e t. e \<in> cl_net c \<Longrightarrow> ev_msg e = RequestVoteReply t True \<Longrightarrow> (ev_from e, t, ev_to e) \<in> cl_ballots c"
  shows "cluster_inv cfg c"
  using assms unfolding cluster_inv_def by blast

lemma granted_recorded:
  assumes "cluster_inv cfg c" "rf_me r = n" "rf_cfg r = cfg" "enabled a r (cl_net c)" "w \<in> grants a r"
  shows "w \<in> set (cf_members cfg)" "(w, rf_term r, n) \<in> cl_ballots c"
  using assms(2-5) by (auto simp: grants_def split: action.splits if_splits dest: cluster_invD(3) [OF assms(1)])

lemma cluster_inv_call:
  assumes inv: "cluster_inv cfg c" and n: "n \<in> set (cf_members cfg)"
    and en: "enabled a (cl_nodes c n) (cl_net c)"
  shows "cluster_inv cfg (settle n (node_act a (cl_nodes c n)) c)"
proof -
  define r0 where "r0 = cl_nodes c n"
  define r where "r = node_act a r0"
  have ok: "vote_ok cfg c n" by (rule cluster_invD(1) [OF inv n])
  then have r0: "rf_me r0 = n" "rf_cfg r0 = cfg" "vv_stored (view r0) = (vv_term (view r0), vv_vote (view r0))"
    "vv_granted (view r0) = []"
    unfolding vote_ok_def Let_def r0_def by (simp_all add: view_def)
  have eff: "vote_effect (grants a r0) (view r0) (view r)"
    unfolding r_def using en r0(3,4) by (intro effect_act) (simp_all add: r0_def)
  note recorded = granted_recorded [OF inv r0(1,2) en [folded r0_def]]
  have self: "vote_ok cfg (settle n r c) n"
    by (rule vote_ok_self [OF inv n eff [unfolded r0_def]]) (use recorded in \<open>auto simp: r0_def\<close>)
  have fresh: "v = v'" if "(n, rf_term r, v) \<in> cl_ballots c" "rf_voted_for r = Some v'" for v v'
    using self that by (auto simp: vote_ok_def Let_def)
  have sent: "n' = n \<and> t = rf_term r \<and> rf_voted_for r = Some v" if "(n', t, v) \<in> set (granted_to (rf_outbox r))" for n' t v
    using eff that r0(1,4) by (auto simp: vote_effect_def view_def)
  show ?thesis
    unfolding r0_def [symmetric] r_def [symmetric]
  proof (rule cluster_invI)
    fix m assume "m \<in> set (cf_members cfg)"
    then show "vote_ok cfg (settle n r c) m"
      using self cluster_invD(1) [OF inv] vote_ok_other [of m n cfg c r] by (cases "m = n") auto
  next
    fix m t v v' assume "(m, t, v) \<in> cl_ballots (settle n r c)" "(m, t, v') \<in> cl_ballots (settle n r c)"
    then show "v = v'" using fresh cluster_invD(2) [OF inv, of m t v v'] by auto
  next
    fix e t assume "e \<in> cl_net (settle n r c)" "ev_msg e = RequestVoteReply t True"
    then show "(ev_from e, t, ev_to e) \<in> cl_ballots (settle n r c)"
      using cluster_invD(3) [OF inv, of e t] sent [of "ev_from e" t "ev_to e"] by (auto simp: granted_to_iff)
  qed
qed

lemma cluster_inv_reachable: "cluster_inv cfg c \<Longrightarrow> (cluster_step cfg)\<^sup>*\<^sup>* c c' \<Longrightarrow> cluster_inv cfg c'"
  by (rotate_tac, induction rule: rtranclp_induct) (auto elim!: cluster_stepE intro: cluster_inv_call)

lemma ballots_mono: "(cluster_step cfg)\<^sup>*\<^sup>* c c' \<Longrightarrow> cl_ballots c \<subseteq> cl_ballots c'"
  by (induction rule: rtranclp_induct) (auto elim!: cluster_stepE)

lemma leader_has_quorum:
  assumes "cluster_inv cfg c" "leads cfg c n t"
  shows "\<exists>Q. Q \<subseteq> set (cf_members cfg) \<and> quorum cfg \<le> card Q \<and> (\<forall>w \<in> Q. (w, t, n) \<in> cl_ballots c)"
proof (intro exI conjI)
  have "vote_ok cfg c n" using assms by (auto simp: cluster_inv_def leads_def)
  with assms(2) show "rf_votes (cl_nodes c n) \<subseteq> set (cf_members cfg)" "quorum cfg \<le> card (rf_votes (cl_nodes c n))"
    "\<forall>w \<in> rf_votes (cl_nodes c n). (w, t, n) \<in> cl_ballots c"
    by (auto simp: vote_ok_def leads_def Let_def)
qed

lemma quorums_meet:
  assumes "Q \<subseteq> set (cf_members cfg)" "Q' \<subseteq> set (cf_members cfg)" "quorum cfg \<le> card Q" "quorum cfg \<le> card Q'"
  shows "Q \<inter> Q' \<noteq> {}"
proof
  assume "Q \<inter> Q' = {}"
  then have "card (Q \<union> Q') = card Q + card Q'"
    using assms(1,2) by (meson card_Un_disjoint finite_set finite_subset)
  moreover have "card (Q \<union> Q') \<le> card (set (cf_members cfg))" using assms(1,2) by (intro card_mono) auto
  ultimately show False
    using assms(3,4) card_length [of "cf_members cfg"] by (simp add: quorum_def)
qed

text \<open>
  C29: election safety: a term has at most one leader. Whenever, in a run of the cluster, a node leads a
  term and at the same or a later moment a node leads the same term, they are the same node, whatever
  messages are lost, duplicated or reordered and whatever nodes restart in between.
\<close>

theorem election_safety:
  assumes "cluster_init cfg c0" "(cluster_step cfg)\<^sup>*\<^sup>* c0 c" "(cluster_step cfg)\<^sup>*\<^sup>* c c'"
    and "leads cfg c n t" "leads cfg c' m t"
  shows "n = m"
proof -
  have inv: "cluster_inv cfg c" "cluster_inv cfg c'"
    using assms(1-3) by (meson cluster_inv_init cluster_inv_reachable)+
  obtain Q where Q: "Q \<subseteq> set (cf_members cfg)" "quorum cfg \<le> card Q" "\<forall>w \<in> Q. (w, t, n) \<in> cl_ballots c"
    using leader_has_quorum [OF inv(1) assms(4)] by blast
  obtain Q' where Q': "Q' \<subseteq> set (cf_members cfg)" "quorum cfg \<le> card Q'" "\<forall>w \<in> Q'. (w, t, m) \<in> cl_ballots c'"
    using leader_has_quorum [OF inv(2) assms(5)] by blast
  obtain w where "w \<in> Q" "w \<in> Q'" using quorums_meet [OF Q(1) Q'(1) Q(2) Q'(2)] by auto
  then have "(w, t, n) \<in> cl_ballots c'" "(w, t, m) \<in> cl_ballots c'"
    using Q(3) Q'(3) ballots_mono [OF assms(3)] by auto
  with inv(2) show ?thesis unfolding cluster_inv_def by blast
qed

definition solo :: config where
  "solo = \<lparr>cf_members = [[1]], cf_election_ticks_min = 0, cf_election_ticks_max = 1, cf_heartbeat_ticks = 3\<rparr>"

definition solo_cluster :: cluster where
  "solo_cluster =
     \<lparr>cl_nodes = (\<lambda>_. case raft_new [1] solo storage_default 0 of Inl _ \<Rightarrow> undefined | Inr r \<Rightarrow> r),
      cl_net = {}, cl_ballots = {}\<rparr>"

lemma below_1: "fst (next_u64 g) < rng_zone 1 \<Longrightarrow> below 1 g = Inr (0, snd (next_u64 g))"
  unfolding below_def by (subst below_loop.simps) (simp add: split_beta)

lemma solo_draws:
  "below 1 (rng_new 1) = Inr (0, snd (next_u64 (rng_new 1)))"
  "below 1 (snd (next_u64 (rng_new 1))) = Inr (0, snd (next_u64 (snd (next_u64 (rng_new 1)))))"
proof -
  have "fst (next_u64 (rng_new 1)) < rng_zone 1" "fst (next_u64 (snd (next_u64 (rng_new 1)))) < rng_zone 1"
    by code_simp+
  then show "below 1 (rng_new 1) = Inr (0, snd (next_u64 (rng_new 1)))"
    "below 1 (snd (next_u64 (rng_new 1))) = Inr (0, snd (next_u64 (snd (next_u64 (rng_new 1)))))"
    by (simp_all add: below_1)
qed

lemma solo_node:
  "\<exists>r. raft_new [1] solo storage_default 0 = Inr r \<and> rf_role r = Follower \<and> rf_term r = 0 \<and>
    rf_election_elapsed r = 0 \<and> rf_election_timeout r = 0 \<and> rf_rng r = snd (next_u64 (rng_new 1)) \<and>
    rf_me r = [1] \<and> rf_cfg r = solo"
proof -
  have seed: "0 XOR word_of_nat (le_value (take 8 [1])) = (1 :: u64)" by (simp add: le_value_def be_value_def)
  show ?thesis
    unfolding raft_new_def seed
    by (simp add: solo_def storage_load_def storage_default_def reset_election_timeout_def Let_def solo_draws)
qed

theorem election_safety_witness:
  "\<exists>c. cluster_init solo solo_cluster \<and> (cluster_step solo)\<^sup>*\<^sup>* solo_cluster c \<and> {m. leads solo c m 1} = {[1]}"
proof -
  obtain r where r: "raft_new [1] solo storage_default 0 = Inr r" "rf_role r = Follower" "rf_term r = 0"
    "rf_election_elapsed r = 0" "rf_election_timeout r = 0" "rf_rng r = snd (next_u64 (rng_new 1))"
    "rf_me r = [1]" "rf_cfg r = solo" using solo_node by blast
  define c where "c = settle [1] (node_act ATick (cl_nodes solo_cluster [1])) solo_cluster"
  have members: "cf_members solo = [[1]]" by (simp add: solo_def)
  have init: "cluster_init solo solo_cluster"
    using r(1) by (auto simp: cluster_init_def solo_cluster_def members)
  have "cluster_step solo solo_cluster c"
    unfolding c_def by (rule call) (simp_all add: solo_cluster_def r members)
  then have steps: "(cluster_step solo)\<^sup>*\<^sup>* solo_cluster c" by simp
  have draw: "\<not> isl (reset_election_timeout (r\<lparr>rf_election_elapsed := 1\<rparr>))"
    using r by (simp add: reset_election_timeout_def solo_def solo_draws Let_def)
  have "view (left_node (tick r)) = (candidacy (view (r\<lparr>rf_election_elapsed := 1\<rparr>)))\<lparr>vv_role := Leader\<rparr>"
    using r draw view_become_candidate [of "r\<lparr>rf_election_elapsed := 1\<rparr>"]
    by (simp add: tick_def quorum_def members)
  then have "vv_role (view (left_node (tick r))) = Leader \<and> vv_term (view (left_node (tick r))) = 1"
    using r by (simp add: candidacy_def) (simp add: view_def)
  then have "leads solo c [1] 1"
    by (simp add: leads_def c_def solo_cluster_def r view_def members)
  with election_safety [OF init steps rtranclp.rtrancl_refl] init steps show ?thesis by blast
qed

end
