(* ===== verification/TextCodec.thy ===== *)
theory TextCodec
  imports Carolina_Prelude "HOL-Library.Char_ord" "HOL-Library.List_Lexorder"
begin

text \<open>
  Canonical text forms: lowercase hexadecimal (\<^verbatim>\<open>src/crates/carolina-core/src/hash.rs\<close>),
  canonical decimal integers (\<open>parse_canonical_int\<close> of \<^verbatim>\<open>canon.rs\<close> and the standard library's
  \<open>to_string\<close> on integers), and the UTF-8 check of \<open>String::from_utf8\<close>. A Rust string is the list of
  its UTF-8 bytes, one \<open>char\<close> of HOL per byte.
\<close>

section \<open>Bytes and characters\<close>

definition to_bytes :: "string \<Rightarrow> bytes" where
  "to_bytes s = map (\<lambda>c. of_nat (of_char c)) s"

definition of_bytes :: "bytes \<Rightarrow> string" where
  "of_bytes bs = map (\<lambda>b. char_of (unat b)) bs"

lemma of_char_u8 [simp]: "unat (of_nat (of_char c) :: u8) = of_char c"
  by (simp add: unat_of_nat)

lemma unat_u8_less: "unat (b :: u8) < 256"
  using unsigned_less [of b] by simp

lemma of_bytes_to_bytes [simp]: "of_bytes (to_bytes s) = s"
  by (simp add: of_bytes_def to_bytes_def comp_def)

lemma to_bytes_of_bytes [simp]: "to_bytes (of_bytes bs) = bs"
  by (simp add: of_bytes_def to_bytes_def comp_def of_char_of unat_u8_less)

lemma length_to_bytes [simp]: "length (to_bytes s) = length s"
  by (simp add: to_bytes_def)

lemma to_bytes_inject [simp]: "to_bytes s = to_bytes t \<longleftrightarrow> s = t"
  by (metis of_bytes_to_bytes)

section \<open>UTF-8\<close>

definition utf8_cont :: "nat \<Rightarrow> bool" where
  "utf8_cont b \<longleftrightarrow> 128 \<le> b \<and> b \<le> 191"

fun utf8_codes :: "nat list \<Rightarrow> bool" where
  "utf8_codes [] = True"
| "utf8_codes (a # bs) =
     (if a < 128 then utf8_codes bs
      else if 194 \<le> a \<and> a \<le> 223 then
        (case bs of b # r \<Rightarrow> utf8_cont b \<and> utf8_codes r | _ \<Rightarrow> False)
      else if 224 \<le> a \<and> a \<le> 239 then
        (case bs of
           b # c # r \<Rightarrow> utf8_cont b \<and> (a = 224 \<longrightarrow> 160 \<le> b) \<and> (a = 237 \<longrightarrow> b \<le> 159) \<and>
             utf8_cont c \<and> utf8_codes r
         | _ \<Rightarrow> False)
      else if 240 \<le> a \<and> a \<le> 244 then
        (case bs of
           b # c # d # r \<Rightarrow> utf8_cont b \<and> (a = 240 \<longrightarrow> 144 \<le> b) \<and> (a = 244 \<longrightarrow> b \<le> 143) \<and>
             utf8_cont c \<and> utf8_cont d \<and> utf8_codes r
         | _ \<Rightarrow> False)
      else False)"

definition utf8_valid :: "string \<Rightarrow> bool" where
  "utf8_valid s = utf8_codes (map of_char s)"

definition is_ascii :: "string \<Rightarrow> bool" where
  "is_ascii s = list_all (\<lambda>c. (of_char c :: nat) < 128) s"

lemma utf8_codes_ascii: "list_all (\<lambda>a. a < 128) as \<Longrightarrow> utf8_codes as"
  by (induction as) auto

lemma is_ascii_utf8: "is_ascii s \<Longrightarrow> utf8_valid s"
  by (simp add: is_ascii_def utf8_valid_def utf8_codes_ascii list.pred_map comp_def)

lemma is_ascii_simps [simp]:
  "is_ascii []" "is_ascii (c # s) \<longleftrightarrow> (of_char c :: nat) < 128 \<and> is_ascii s"
  "is_ascii (s @ t) \<longleftrightarrow> is_ascii s \<and> is_ascii t"
  by (simp_all add: is_ascii_def)

section \<open>Hexadecimal\<close>

definition hex_digit :: "nat \<Rightarrow> char" where
  "hex_digit n = ''0123456789abcdef'' ! n"

definition hex_encode :: "bytes \<Rightarrow> string" where
  "hex_encode bs = concat (map (\<lambda>b. [hex_digit (unat b div 16), hex_digit (unat b mod 16)]) bs)"

definition hex_nib :: "char \<Rightarrow> nat core_result" where
  "hex_nib ch =
     (let c = of_char ch :: nat
      in if 48 \<le> c \<and> c \<le> 57 then Inr (c - 48)
         else if 97 \<le> c \<and> c \<le> 102 then Inr (c - 97 + 10)
         else Inl NonCanonicalEncoding)"

fun hex_pairs :: "string \<Rightarrow> bytes core_result" where
  "hex_pairs (a # b # s) =
     rbind (hex_nib a) (\<lambda>x. rbind (hex_nib b) (\<lambda>y. rbind (hex_pairs s)
       (\<lambda>bs. Inr (of_nat (x * 16 + y) # bs))))"
| "hex_pairs s = Inr []"

definition hex_decode :: "string \<Rightarrow> bytes core_result" where
  "hex_decode s = (if odd (length s) then Inl NonCanonicalEncoding else hex_pairs s)"

lemma less_16_cases: "n < 16 \<Longrightarrow> list_ex (\<lambda>k. n = k) [0..<16]"
  by (simp add: list_ex_iff)

lemma hex_nib_digit: "n < 16 \<Longrightarrow> hex_nib (hex_digit n) = Inr n"
  by (drule less_16_cases) (simp add: upt_rec, elim disjE; simp add: hex_digit_def hex_nib_def)

lemma hex_digit_ascii: "n < 16 \<Longrightarrow> (of_char (hex_digit n) :: nat) < 128"
  by (drule less_16_cases) (simp add: upt_rec, elim disjE; simp add: hex_digit_def)

lemma of_char_hex_digit: "n < 16 \<Longrightarrow> (of_char (hex_digit n) :: nat) = (if n < 10 then 48 + n else 87 + n)"
  by (drule less_16_cases) (simp add: upt_rec, elim disjE; simp add: hex_digit_def)

lemma hex_nib_Inr: "hex_nib c = Inr n \<Longrightarrow> n < 16 \<and> c = hex_digit n"
proof -
  assume n: "hex_nib c = Inr n"
  then have "n < 16" by (auto simp: hex_nib_def Let_def split: if_splits)
  moreover have "(of_char c :: nat) = of_char (hex_digit n)"
    using n of_char_hex_digit [OF \<open>n < 16\<close>] by (auto simp: hex_nib_def Let_def split: if_splits)
  ultimately show ?thesis by (simp add: of_char_eq_iff)
qed

lemma length_hex_encode [simp]: "length (hex_encode bs) = 2 * length bs"
  by (induction bs) (simp_all add: hex_encode_def)

lemma hex_encode_simps [simp]:
  "hex_encode [] = []"
  "hex_encode (b # bs) = hex_digit (unat b div 16) # hex_digit (unat b mod 16) # hex_encode bs"
  by (simp_all add: hex_encode_def)

lemma is_ascii_hex_encode [simp]: "is_ascii (hex_encode bs)"
proof (induction bs)
  case (Cons b bs)
  have "unat b div 16 < 16" using unat_u8_less [of b] by simp
  with Cons show ?case by (simp add: hex_digit_ascii)
qed simp

lemma hex_pairs_encode: "hex_pairs (hex_encode bs) = Inr bs"
proof (induction bs)
  case (Cons b bs)
  have "unat b div 16 < 16" using unat_u8_less [of b] by simp
  moreover have "of_nat (unat b div 16 * 16 + unat b mod 16) = b"
    unfolding div_mult_mod_eq by simp
  ultimately show ?case using Cons by (simp add: hex_nib_digit del: of_nat_add of_nat_mult)
qed simp

lemma hex_decode_encode: "hex_decode (hex_encode bs) = Inr bs"
  by (simp add: hex_decode_def hex_pairs_encode)

lemma hex_pairs_Inr: "hex_pairs s = Inr bs \<Longrightarrow> even (length s) \<Longrightarrow> s = hex_encode bs"
proof (induction s arbitrary: bs rule: hex_pairs.induct)
  case (1 a b s)
  then obtain x y bs' where *: "hex_nib a = Inr x" "hex_nib b = Inr y" "hex_pairs s = Inr bs'"
    "bs = of_nat (x * 16 + y) # bs'"
    by (auto simp: rbind_eq_Inr_iff)
  with 1 have "s = hex_encode bs'" by simp
  moreover from * hex_nib_Inr have "x < 16" "y < 16" "a = hex_digit x" "b = hex_digit y" by auto
  moreover from this have "unat (of_nat (x * 16 + y) :: u8) = x * 16 + y"
    by (subst unat_of_nat) simp
  ultimately show ?case using * by (simp del: of_nat_add of_nat_mult)
qed simp_all

section \<open>Canonical decimal integers\<close>

definition digit_char :: "nat \<Rightarrow> char" where
  "digit_char d = char_of (48 + d)"

text \<open>\<open>to_string\<close> of an unsigned and of a signed integer.\<close>

fun show_nat :: "nat \<Rightarrow> string" where
  "show_nat n =
     (if n < 10 then [digit_char n] else show_nat (n div 10) @ [digit_char (n mod 10)])"

declare show_nat.simps [simp del]

definition show_int :: "int \<Rightarrow> string" where
  "show_int i = (if i < 0 then CHR ''-'' # show_nat (nat (- i)) else show_nat (nat i))"

definition is_digit :: "char \<Rightarrow> bool" where
  "is_digit c \<longleftrightarrow> 48 \<le> (of_char c :: nat) \<and> (of_char c :: nat) \<le> 57"

definition digit_value :: "char \<Rightarrow> int" where
  "digit_value c = int (of_char c) - 48"

definition i128_max :: int where
  "i128_max = 2 ^ 127 - 1"

fun int_digits :: "int \<Rightarrow> string \<Rightarrow> int core_result" where
  "int_digits v [] = Inr v"
| "int_digits v (c # cs) =
     (if v * 10 > i128_max then Inl NumericOverflow
      else if v * 10 + digit_value c > i128_max then Inl NumericOverflow
      else int_digits (v * 10 + digit_value c) cs)"

definition parse_canonical_int :: "string \<Rightarrow> int core_result" where
  "parse_canonical_int s =
     (if s = [] then Inl NonCanonicalEncoding
      else
        let neg = hd s = CHR ''-''; digits = (if neg then tl s else s)
        in if digits = [] \<or> \<not> list_all is_digit digits then Inl NonCanonicalEncoding
           else if 1 < length digits \<and> hd digits = CHR ''0'' then Inl NonCanonicalEncoding
           else if neg \<and> digits = ''0'' then Inl NonCanonicalEncoding
           else if 39 < length digits then Inl NumericOverflow
           else rbind (int_digits 0 digits) (\<lambda>v. Inr (if neg then - v else v)))"

lemma show_nat_base: "n < 10 \<Longrightarrow> show_nat n = [digit_char n]"
  by (simp add: show_nat.simps)

lemma show_nat_step: "10 \<le> n \<Longrightarrow> show_nat n = show_nat (n div 10) @ [digit_char (n mod 10)]"
  by (subst show_nat.simps) simp

lemma of_char_digit [simp]: "d < 10 \<Longrightarrow> (of_char (digit_char d) :: nat) = 48 + d"
  by (simp add: digit_char_def of_char_of)

lemma is_digit_digit_char [simp]: "d < 10 \<Longrightarrow> is_digit (digit_char d)"
  by (simp add: is_digit_def)

lemma digit_value_digit_char [simp]: "d < 10 \<Longrightarrow> digit_value (digit_char d) = int d"
  by (simp add: digit_value_def)

lemma digit_char_0 [simp]: "digit_char 0 = CHR ''0''"
proof -
  have "(of_char (digit_char 0) :: nat) = of_char (CHR ''0'')" by simp
  then show ?thesis by (simp only: of_char_eq_iff)
qed

lemma show_nat_0 [simp]: "show_nat 0 = ''0''"
  by (simp add: show_nat_base)

lemma show_nat_not_Nil [simp]: "show_nat n \<noteq> []"
  by (cases "n < 10") (simp_all add: show_nat_base show_nat_step)

lemma show_nat_digits [simp]: "list_all is_digit (show_nat n)"
proof (induction n rule: show_nat.induct)
  case (1 n)
  then show ?case by (cases "n < 10") (simp_all add: show_nat_base show_nat_step)
qed

lemma show_nat_ascii [simp]: "is_ascii (show_nat n)"
proof (induction n rule: show_nat.induct)
  case (1 n)
  then show ?case by (cases "n < 10") (simp_all add: show_nat_base show_nat_step)
qed

lemma length_show_nat: "n < 10 ^ k \<Longrightarrow> 0 < k \<Longrightarrow> length (show_nat n) \<le> k"
proof (induction n arbitrary: k rule: show_nat.induct)
  case (1 n)
  show ?case
  proof (cases "n < 10")
    case False
    with 1 obtain j where j: "k = Suc j" "0 < j" by (cases k; cases "k - 1") auto
    have "n div 10 < 10 ^ j" using 1(2) j by (simp add: less_mult_imp_div_less mult.commute)
    with 1(1) [OF False _ j(2)] False j show ?thesis by (simp add: show_nat_step)
  qed (use 1 in \<open>simp add: show_nat_base\<close>)
qed

lemma hd_show_nat: "hd (show_nat n) = CHR ''0'' \<Longrightarrow> n = 0"
proof (induction n rule: show_nat.induct)
  case (1 n)
  show ?case
  proof (cases "n < 10")
    case True
    with 1(2) have "digit_char n = CHR ''0''" by (simp add: show_nat_base)
    then have "(of_char (digit_char n) :: nat) = 48" by simp
    with of_char_digit [OF True] show ?thesis by simp
  next
    case False
    with 1(2) have "hd (show_nat (n div 10)) = CHR ''0''" by (simp add: show_nat_step hd_append)
    from 1(1) [OF False this] False show ?thesis by simp
  qed
qed

lemma hd_show_nat_minus: "hd (show_nat n) \<noteq> CHR ''-''"
proof -
  have "is_digit (hd (show_nat n))" using show_nat_digits [of n] by (cases "show_nat n") simp_all
  then show ?thesis by (auto simp: is_digit_def)
qed

lemma int_digits_append:
  "int_digits v (s @ t) = rbind (int_digits v s) (\<lambda>w. int_digits w t)"
  by (induction s arbitrary: v) simp_all

lemma int_digits_show_nat: "int n \<le> i128_max \<Longrightarrow> int_digits 0 (show_nat n) = Inr (int n)"
proof (induction n rule: show_nat.induct)
  case (1 n)
  show ?case
  proof (cases "n < 10")
    case False
    have "int (n div 10) * 10 + int (n mod 10) = int n" by (metis div_mult_mod_eq of_nat_add of_nat_mult of_nat_numeral)
    moreover from this have "int (n div 10) * 10 \<le> i128_max" using 1(2) by linarith
    moreover from this have "int (n div 10) \<le> i128_max" by linarith
    ultimately show ?thesis using 1(1) [OF False] 1(2) False
      by (simp add: show_nat_step int_digits_append)
  qed (simp add: show_nat_base i128_max_def)
qed

text \<open>The other direction: digits without a redundant zero spell the number they denote.\<close>

lemma is_digitE:
  assumes "is_digit c"
  obtains d where "d < 10" "c = digit_char d"
proof
  show "(of_char c :: nat) - 48 < 10" using assms unfolding is_digit_def by linarith
  have "48 + ((of_char c :: nat) - 48) = of_char c" using assms unfolding is_digit_def by linarith
  then show "c = digit_char (of_char c - 48)" by (simp add: digit_char_def)
qed

lemma int_digits_spell:
  "int_digits 0 s = Inr v \<Longrightarrow> list_all is_digit s \<Longrightarrow> s \<noteq> [] \<Longrightarrow>
   length s = 1 \<or> hd s \<noteq> CHR ''0'' \<Longrightarrow> 0 \<le> v \<and> v \<le> i128_max \<and> s = show_nat (nat v)"
proof (induction s arbitrary: v rule: rev_induct)
  case (snoc c s)
  obtain d where d: "d < 10" "c = digit_char d" using snoc.prems(2) by (auto elim: is_digitE)
  from snoc.prems(1) obtain w where w: "int_digits 0 s = Inr w" "v = w * 10 + int d" "v \<le> i128_max"
    using d by (auto simp: int_digits_append rbind_eq_Inr_iff split: if_splits)
  show ?case
  proof (cases "s = []")
    case True
    with w d show ?thesis by (simp add: show_nat_base)
  next
    case False
    with snoc.prems have "hd s \<noteq> CHR ''0''" by (cases s) auto
    then have IH: "0 \<le> w" "s = show_nat (nat w)" using snoc.IH [OF w(1)] snoc.prems False by auto
    with \<open>hd s \<noteq> CHR ''0''\<close> have "w \<noteq> 0" by auto
    with IH w(2) have v: "nat v = nat w * 10 + d" "0 < nat w" by auto
    then have "10 \<le> nat v" "nat v div 10 = nat w" "nat v mod 10 = d" using d by auto
    with IH w d show ?thesis by (simp add: show_nat_step)
  qed
qed simp

lemma parse_canonical_int_spelling:
  assumes p: "parse_canonical_int s = Inr i"
  shows "s = show_int i \<and> \<bar>i\<bar> \<le> 2 ^ 127 - 1"
proof -
  define neg where "neg = (hd s = CHR ''-'')"
  define ds where "ds = (if neg then tl s else s)"
  from p obtain v where v: "int_digits 0 ds = Inr v" "i = (if neg then - v else v)" and
    ds: "s \<noteq> []" "ds \<noteq> []" "list_all is_digit ds" "\<not> (1 < length ds \<and> hd ds = CHR ''0'')"
      "\<not> (neg \<and> ds = ''0'')"
    by (auto simp: parse_canonical_int_def Let_def rbind_eq_Inr_iff neg_def ds_def split: if_splits)
  have "length ds = 1 \<or> hd ds \<noteq> CHR ''0''" using ds by (cases ds) auto
  then have *: "0 \<le> v" "v \<le> i128_max" "ds = show_nat (nat v)"
    using int_digits_spell [OF v(1)] ds by auto
  have "v \<noteq> 0" if neg using ds(5) * that by auto
  then show ?thesis
    using * v(2) ds(1) by (cases s) (auto simp: show_int_def ds_def neg_def i128_max_def split: if_splits)
qed

lemma parse_show_int:
  assumes i: "\<bar>i\<bar> \<le> 2 ^ 127 - 1"
  shows "parse_canonical_int (show_int i) = Inr i"
proof -
  define n where "n = nat \<bar>i\<bar>"
  have n: "int n \<le> i128_max" "n < 10 ^ 39" using i by (auto simp: n_def i128_max_def)
  then have len: "length (show_nat n) \<le> 39" by (intro length_show_nat) auto
  have zero: "hd (show_nat n) = CHR ''0'' \<Longrightarrow> length (show_nat n) = 1"
    using hd_show_nat [of n] by (simp add: show_nat_base)
  show ?thesis
  proof (cases "i < 0")
    case True
    then have "show_nat n \<noteq> ''0''" using hd_show_nat [of n] by (auto simp: n_def)
    with True i n len zero show ?thesis
      by (auto simp: parse_canonical_int_def show_int_def int_digits_show_nat n_def Let_def)
  next
    case False
    with i n len zero hd_show_nat_minus [of n] show ?thesis
      by (auto simp: parse_canonical_int_def show_int_def int_digits_show_nat n_def Let_def)
  qed
qed

section \<open>Properties\<close>

text \<open>C17: hexadecimal text is a bijection: a string decodes to \<open>bs\<close> exactly when it is the
  lowercase encoding of \<open>bs\<close>, so no other spelling is accepted.\<close>

theorem hex_decode_iff: "hex_decode s = Inr bs \<longleftrightarrow> s = hex_encode bs"
  using hex_pairs_Inr hex_decode_encode by (auto simp: hex_decode_def split: if_splits)

text \<open>C16: canonical integers have exactly one spelling: a string parses to \<open>i\<close> exactly when it is
  the decimal text of \<open>i\<close> and the magnitude of \<open>i\<close> fits 127 bits.\<close>

theorem parse_canonical_int_iff:
  "parse_canonical_int s = Inr i \<longleftrightarrow> s = show_int i \<and> \<bar>i\<bar> \<le> 2 ^ 127 - 1"
  using parse_canonical_int_spelling parse_show_int by blast

end
