(* ===== verification/Canon.thy ===== *)
theory Canon
  imports TextCodec
begin

text \<open>
  Restricted canonical JSON (\<^verbatim>\<open>src/crates/carolina-core/src/canon.rs\<close>): the value type, the
  encoder, the strict recursive-descent decoder with its limits, the object builder and the typed
  accessors, and the \<open>Canonical\<close> trait as a locale. The decoder works on the list of remaining
  bytes, read as characters; an object is the list of its entries in key order.
\<close>

section \<open>Limits\<close>

record limits =
  limits_version :: nat
  max_payload_bytes :: nat
  max_depth :: nat
  max_collection_len :: nat
  max_scalar_bytes :: nat
  max_source_bytes :: nat
  max_declarations :: nat
  max_expr_depth :: nat
  max_set_cardinality :: nat
  analysis_budget :: nat
  max_frame_payload :: nat
  max_arguments_bytes :: nat
  max_result_bytes :: nat
  max_token_bytes :: nat
  max_snapshot_chunk_bytes :: nat

definition limits_v1 :: limits where
  "limits_v1 =
     \<lparr>limits_version = 1, max_payload_bytes = 16 * 1024 * 1024, max_depth = 64,
      max_collection_len = 65536, max_scalar_bytes = 1024 * 1024,
      max_source_bytes = 4 * 1024 * 1024, max_declarations = 4096, max_expr_depth = 64,
      max_set_cardinality = 65536, analysis_budget = 5000000,
      max_frame_payload = 16 * 1024 * 1024, max_arguments_bytes = 1024 * 1024,
      max_result_bytes = 1024 * 1024, max_token_bytes = 64 * 1024,
      max_snapshot_chunk_bytes = 4 * 1024 * 1024\<rparr>"

definition limits_tiny :: limits where
  "limits_tiny =
     \<lparr>limits_version = 1, max_payload_bytes = 4096, max_depth = 8, max_collection_len = 16,
      max_scalar_bytes = 256, max_source_bytes = 4096, max_declarations = 32, max_expr_depth = 8,
      max_set_cardinality = 16, analysis_budget = 10000, max_frame_payload = 4096,
      max_arguments_bytes = 1024, max_result_bytes = 1024, max_token_bytes = 512,
      max_snapshot_chunk_bytes = 2048\<rparr>"

section \<open>Values\<close>

datatype canon =
    CNull
  | CBool bool
  | CStr string
  | CArray "canon list"
  | CObject "(string \<times> canon) list"

text \<open>\<open>BTreeMap::insert\<close> on the entries in key order.\<close>

fun obj_insert :: "string \<Rightarrow> 'v \<Rightarrow> (string \<times> 'v) list \<Rightarrow> (string \<times> 'v) list" where
  "obj_insert k v [] = [(k, v)]"
| "obj_insert k v ((k', v') # kvs) =
     (if k < k' then (k, v) # (k', v') # kvs
      else if k = k' then (k, v) # kvs
      else (k', v') # obj_insert k v kvs)"

definition c_int :: "int \<Rightarrow> canon" where
  "c_int v = CStr (show_int v)"

definition c_uint :: "u64 \<Rightarrow> canon" where
  "c_uint v = CStr (show_nat (unat v))"

definition c_u32 :: "u32 \<Rightarrow> canon" where
  "c_u32 v = CStr (show_nat (unat v))"

definition c_bytes :: "bytes \<Rightarrow> canon" where
  "c_bytes b = CStr (hex_encode b)"

definition c_option :: "('a \<Rightarrow> canon) \<Rightarrow> 'a option \<Rightarrow> canon" where
  "c_option to_canon v = (case v of Some x \<Rightarrow> to_canon x | None \<Rightarrow> CNull)"

text \<open>\<open>CanonValue::obj().f(k1, v1)....build()\<close>: the builder calls in the order of the code.\<close>

definition c_obj :: "(string \<times> canon) list \<Rightarrow> canon" where
  "c_obj kvs = CObject (fold (\<lambda>(k, v). obj_insert k v) kvs [])"

section \<open>Encoding\<close>

definition quote_char :: char where
  "quote_char = CHR 0x22"

definition escape_char :: char where
  "escape_char = CHR 0x5C"

definition write_char :: "char \<Rightarrow> string" where
  "write_char c =
     (if c = quote_char then [escape_char, quote_char]
      else if c = escape_char then [escape_char, escape_char]
      else if (of_char c :: nat) < 32
      then [escape_char, CHR ''u'', CHR ''0'', CHR ''0'', hex_digit (of_char c div 16),
            hex_digit (of_char c mod 16)]
      else [c])"

definition write_string :: "string \<Rightarrow> string" where
  "write_string s = [quote_char] @ concat (map write_char s) @ [quote_char]"

fun comma_join :: "string list \<Rightarrow> string" where
  "comma_join [] = []"
| "comma_join [s] = s"
| "comma_join (s # ss) = s @ '','' @ comma_join ss"

fun write_to :: "canon \<Rightarrow> string" where
  "write_to CNull = ''null''"
| "write_to (CBool True) = ''true''"
| "write_to (CBool False) = ''false''"
| "write_to (CStr s) = write_string s"
| "write_to (CArray vs) = ''['' @ comma_join (map write_to vs) @ '']''"
| "write_to (CObject kvs) =
     ''{'' @ comma_join (map (\<lambda>kv. write_string (fst kv) @ '':'' @ write_to (snd kv)) kvs) @ ''}''"

definition canon_encode :: "canon \<Rightarrow> bytes" where
  "canon_encode v = to_bytes (write_to v)"

section \<open>Decoding\<close>

definition expect_lit :: "string \<Rightarrow> 'a \<Rightarrow> string \<Rightarrow> ('a \<times> string) core_result" where
  "expect_lit lit v bs =
     (if take (length lit) bs = lit then Inr (v, drop (length lit) bs)
      else Inl NonCanonicalEncoding)"

definition is_lower_hex :: "char \<Rightarrow> bool" where
  "is_lower_hex c \<longleftrightarrow> is_digit c \<or> 97 \<le> (of_char c :: nat) \<and> (of_char c :: nat) \<le> 102"

definition hex_value :: "char \<Rightarrow> nat" where
  "hex_value c = (if is_digit c then of_char c - 48 else of_char c - 87)"

text \<open>
  \<open>parse_string\<close> after the opening quote: \<open>n\<close> is \<open>self.pos - start\<close>, \<open>out\<close> the bytes collected.
\<close>

fun parse_string :: "limits \<Rightarrow> nat \<Rightarrow> string \<Rightarrow> string \<Rightarrow> (string \<times> string) core_result" where
  "parse_string lim n out [] = Inl NonCanonicalEncoding"
| "parse_string lim n out (c # bs) =
     (if n > max_scalar_bytes lim + 8 then Inl ResourceLimit
      else if c = quote_char then
        (if utf8_valid out then Inr (out, bs) else Inl NonCanonicalEncoding)
      else if c = escape_char then
        (case bs of
           [] \<Rightarrow> Inl NonCanonicalEncoding
         | e # r \<Rightarrow>
             if e = quote_char then parse_string lim (n + 2) (out @ [quote_char]) r
             else if e = escape_char then parse_string lim (n + 2) (out @ [escape_char]) r
             else if e = CHR ''u'' then
               (case r of
                  h1 # h2 # h3 # h4 # r' \<Rightarrow>
                    if \<not> list_all is_lower_hex [h1, h2, h3, h4] then Inl NonCanonicalEncoding
                    else
                      let cp = ((hex_value h1 * 16 + hex_value h2) * 16 + hex_value h3) * 16 +
                            hex_value h4
                      in if 32 \<le> cp then Inl NonCanonicalEncoding
                         else parse_string lim (n + 6) (out @ [char_of cp]) r'
                | _ \<Rightarrow> Inl NonCanonicalEncoding)
             else Inl NonCanonicalEncoding)
      else if (of_char c :: nat) < 32 then Inl NonCanonicalEncoding
      else parse_string lim (n + 1) (out @ [c]) bs)"

text \<open>
  The loops of \<open>parse_array\<close> and \<open>parse_object\<close> continue on what \<open>parse_value\<close> left. Their guard
  that the rest is shorter makes the recursion terminate; \<open>parse_value_parsed\<close> below shows that it
  always holds.
\<close>

function (sequential) parse_value :: "limits \<Rightarrow> nat \<Rightarrow> string \<Rightarrow> (canon \<times> string) core_result"
  and parse_items :: "limits \<Rightarrow> nat \<Rightarrow> canon list \<Rightarrow> string \<Rightarrow> (canon list \<times> string) core_result"
  and parse_members :: "limits \<Rightarrow> nat \<Rightarrow> string option \<Rightarrow> (string \<times> canon) list \<Rightarrow> string \<Rightarrow>
        ((string \<times> canon) list \<times> string) core_result" where
  "parse_value lim depth [] = Inl NonCanonicalEncoding"
| "parse_value lim depth (c # bs) =
     (if c = CHR ''n'' then expect_lit ''null'' CNull (c # bs)
      else if c = CHR ''t'' then expect_lit ''true'' (CBool True) (c # bs)
      else if c = CHR ''f'' then expect_lit ''false'' (CBool False) (c # bs)
      else if c = quote_char then
        rbind (parse_string lim 0 [] bs) (\<lambda>(s, r). Inr (CStr s, r))
      else if c = CHR ''['' then
        (if Suc depth > max_depth lim then Inl ResourceLimit
         else if bs \<noteq> [] \<and> hd bs = CHR '']'' then Inr (CArray [], tl bs)
         else rbind (parse_items lim (Suc depth) [] bs) (\<lambda>(vs, r). Inr (CArray vs, r)))
      else if c = CHR ''{'' then
        (if Suc depth > max_depth lim then Inl ResourceLimit
         else if bs \<noteq> [] \<and> hd bs = CHR ''}'' then Inr (CObject [], tl bs)
         else rbind (parse_members lim (Suc depth) None [] bs) (\<lambda>(kvs, r). Inr (CObject kvs, r)))
      else Inl NonCanonicalEncoding)"
| "parse_items lim depth items bs =
     rbind (parse_value lim depth bs)
       (\<lambda>(v, r).
          if max_collection_len lim < Suc (length items) then Inl ResourceLimit
          else if \<not> length r < length bs then Inl Internal
          else case r of
                 [] \<Rightarrow> Inl NonCanonicalEncoding
               | c # r' \<Rightarrow>
                   if c = CHR '','' then parse_items lim depth (items @ [v]) r'
                   else if c = CHR '']'' then Inr (items @ [v], r')
                   else Inl NonCanonicalEncoding)"
| "parse_members lim depth last_key kvs bs =
     (case bs of
        [] \<Rightarrow> Inl NonCanonicalEncoding
      | q # bs1 \<Rightarrow>
          if q \<noteq> quote_char then Inl NonCanonicalEncoding
          else
            rbind (parse_string lim 0 [] bs1)
              (\<lambda>(key, bs2).
                 if \<not> is_ascii key then Inl NonCanonicalEncoding
                 else if (case last_key of None \<Rightarrow> False | Some prev \<Rightarrow> key \<le> prev)
                 then Inl NonCanonicalEncoding
                 else if bs2 = [] \<or> hd bs2 \<noteq> CHR '':'' then Inl NonCanonicalEncoding
                 else if \<not> length bs2 < length bs then Inl Internal
                 else
                   rbind (parse_value lim depth (tl bs2))
                     (\<lambda>(v, r).
                        let kvs = obj_insert key v kvs
                        in if max_collection_len lim < length kvs then Inl ResourceLimit
                           else if \<not> length r < length bs then Inl Internal
                           else case r of
                                  [] \<Rightarrow> Inl NonCanonicalEncoding
                                | c # r' \<Rightarrow>
                                    if c = CHR '','' then parse_members lim depth (Some key) kvs r'
                                    else if c = CHR ''}'' then Inr (kvs, r')
                                    else Inl NonCanonicalEncoding)))"
  by pat_completeness auto
termination
  by (relation "measures [case_sum (\<lambda>(lim, d, bs). length bs)
        (case_sum (\<lambda>(lim, d, items, bs). length bs) (\<lambda>(lim, d, k, kvs, bs). length bs)),
      case_sum (\<lambda>_. 0) (\<lambda>_. 1)]") auto

declare parse_items.simps [simp del] parse_members.simps [simp del]

definition canon_decode :: "bytes \<Rightarrow> limits \<Rightarrow> canon core_result" where
  "canon_decode bytes lim =
     (if length bytes > max_payload_bytes lim then Inl ResourceLimit
      else
        rbind (parse_value lim 0 (of_bytes bytes))
          (\<lambda>(v, r).
             if r \<noteq> [] then Inl NonCanonicalEncoding
             else if canon_encode v \<noteq> bytes then Inl NonCanonicalEncoding
             else Inr v))"

section \<open>Accessors\<close>

definition as_str :: "canon \<Rightarrow> string core_result" where
  "as_str v = (case v of CStr s \<Rightarrow> Inr s | _ \<Rightarrow> Inl NonCanonicalEncoding)"

definition as_bool :: "canon \<Rightarrow> bool core_result" where
  "as_bool v = (case v of CBool b \<Rightarrow> Inr b | _ \<Rightarrow> Inl NonCanonicalEncoding)"

definition as_i128 :: "canon \<Rightarrow> int core_result" where
  "as_i128 v = rbind (as_str v) parse_canonical_int"

definition as_i64 :: "canon \<Rightarrow> i64 core_result" where
  "as_i64 v = rbind (as_i128 v)
     (\<lambda>i. if - (2 ^ 63) \<le> i \<and> i < 2 ^ 63 then Inr (word_of_int i) else Inl NumericOverflow)"

definition as_u64 :: "canon \<Rightarrow> u64 core_result" where
  "as_u64 v = rbind (as_str v) (\<lambda>s. rbind (parse_canonical_int s)
     (\<lambda>i. if i < 0 then Inl NonCanonicalEncoding
          else if i < 2 ^ 64 then Inr (word_of_int i) else Inl NumericOverflow))"

definition as_u32 :: "canon \<Rightarrow> u32 core_result" where
  "as_u32 v = rbind (as_u64 v)
     (\<lambda>w. if unat w < 2 ^ 32 then Inr (ucast w) else Inl NumericOverflow)"

definition as_u16 :: "canon \<Rightarrow> u16 core_result" where
  "as_u16 v = rbind (as_u64 v)
     (\<lambda>w. if unat w < 2 ^ 16 then Inr (ucast w) else Inl NumericOverflow)"

definition as_bytes :: "canon \<Rightarrow> bytes core_result" where
  "as_bytes v = rbind (as_str v) hex_decode"

definition as_array :: "canon \<Rightarrow> canon list core_result" where
  "as_array v = (case v of CArray a \<Rightarrow> Inr a | _ \<Rightarrow> Inl NonCanonicalEncoding)"

definition as_object :: "canon \<Rightarrow> (string \<times> canon) list core_result" where
  "as_object v = (case v of CObject kvs \<Rightarrow> Inr kvs | _ \<Rightarrow> Inl NonCanonicalEncoding)"

definition is_null :: "canon \<Rightarrow> bool" where
  "is_null v \<longleftrightarrow> v = CNull"

definition c_field :: "canon \<Rightarrow> string \<Rightarrow> canon core_result" where
  "c_field v name = rbind (as_object v)
     (\<lambda>kvs. case map_of kvs name of None \<Rightarrow> Inl NonCanonicalEncoding | Some x \<Rightarrow> Inr x)"

definition opt_field :: "canon \<Rightarrow> string \<Rightarrow> canon option core_result" where
  "opt_field v name = rbind (as_object v)
     (\<lambda>kvs. Inr (case map_of kvs name of
                   None \<Rightarrow> None | Some x \<Rightarrow> if is_null x then None else Some x))"

definition expect_fields :: "canon \<Rightarrow> string list \<Rightarrow> unit core_result" where
  "expect_fields v names = rbind (as_object v)
     (\<lambda>kvs. if \<not> list_all (\<lambda>kv. fst kv \<in> set names) kvs then Inl NonCanonicalEncoding
            else if \<not> list_all (\<lambda>f. map_of kvs f \<noteq> None) names then Inl NonCanonicalEncoding
            else Inr ())"

text \<open>\<open>CanonValue::set\<close>: sort by encoded bytes, refuse adjacent duplicates.\<close>

fun adjacent_distinct :: "'a list \<Rightarrow> bool" where
  "adjacent_distinct (x # y # zs) \<longleftrightarrow> x \<noteq> y \<and> adjacent_distinct (y # zs)"
| "adjacent_distinct _ \<longleftrightarrow> True"

definition c_set :: "canon list \<Rightarrow> canon core_result" where
  "c_set vs =
     (let encoded = sort_key fst (map (\<lambda>v. (canon_encode v, v)) vs)
      in if adjacent_distinct (map fst encoded) then Inr (CArray (map snd encoded))
         else Inl NonCanonicalEncoding)"

fun set_sorted :: "bytes option \<Rightarrow> canon list \<Rightarrow> bool" where
  "set_sorted prev [] \<longleftrightarrow> True"
| "set_sorted prev (v # vs) \<longleftrightarrow>
     (case prev of None \<Rightarrow> True | Some p \<Rightarrow> \<not> canon_encode v \<le> p) \<and>
     set_sorted (Some (canon_encode v)) vs"

definition as_set :: "canon \<Rightarrow> canon list core_result" where
  "as_set v = rbind (as_array v)
     (\<lambda>a. if set_sorted None a then Inr a else Inl NonCanonicalEncoding)"

text \<open>\<open>decode_set\<close>: the \<open>Ord\<close> instance of the element type is given by a sort key.\<close>

definition decode_set :: "('a \<Rightarrow> 'k :: linorder) \<Rightarrow> (canon \<Rightarrow> 'a core_result) \<Rightarrow> canon \<Rightarrow> 'a list core_result" where
  "decode_set key from_canon v =
     rbind (as_set v) (\<lambda>a. rbind (rmapM from_canon a) (\<lambda>xs. Inr (sort_key key xs)))"

section \<open>Well-formed values and limits\<close>

fun canon_wf :: "canon \<Rightarrow> bool" where
  "canon_wf (CStr s) = utf8_valid s"
| "canon_wf (CArray vs) = list_all canon_wf vs"
| "canon_wf (CObject kvs) =
     (sorted_wrt (<) (map fst kvs) \<and> list_all (\<lambda>kv. is_ascii (fst kv) \<and> canon_wf (snd kv)) kvs)"
| "canon_wf _ = True"

definition string_fits :: "limits \<Rightarrow> string \<Rightarrow> bool" where
  "string_fits lim s \<longleftrightarrow> length (concat (map write_char s)) \<le> max_scalar_bytes lim + 8"

fun canon_fits :: "limits \<Rightarrow> nat \<Rightarrow> canon \<Rightarrow> bool" where
  "canon_fits lim d (CStr s) = string_fits lim s"
| "canon_fits lim d (CArray vs) =
     (d < max_depth lim \<and> length vs \<le> max_collection_len lim \<and> list_all (canon_fits lim (Suc d)) vs)"
| "canon_fits lim d (CObject kvs) =
     (d < max_depth lim \<and> length kvs \<le> max_collection_len lim \<and>
      list_all (\<lambda>kv. string_fits lim (fst kv) \<and> canon_fits lim (Suc d) (snd kv)) kvs)"
| "canon_fits lim d _ = True"

section \<open>The decoder reads what the encoder writes\<close>

lemma hex_digit_lower: "n < 16 \<Longrightarrow> is_lower_hex (hex_digit n) \<and> hex_value (hex_digit n) = n"
  by (drule less_16_cases) (simp add: upt_rec, elim disjE; simp add: hex_digit_def is_lower_hex_def hex_value_def is_digit_def)

lemma zero_lower_hex [simp]: "is_lower_hex (CHR ''0'')" "hex_value (CHR ''0'') = 0"
  by (simp_all add: is_lower_hex_def hex_value_def is_digit_def)

lemma special_chars [simp]:
  "quote_char \<noteq> escape_char" "escape_char \<noteq> quote_char" "CHR ''u'' \<noteq> quote_char" "CHR ''u'' \<noteq> escape_char"
  "\<not> (of_char quote_char :: nat) < 32" "\<not> (of_char escape_char :: nat) < 32"
  by (simp_all add: quote_char_def escape_char_def)

lemma parse_string_char:
  assumes "n + length (write_char c) \<le> max_scalar_bytes lim + 8"
  shows "parse_string lim n out (write_char c @ bs) =
    parse_string lim (n + length (write_char c)) (out @ [c]) bs"
proof -
  have ctl: "(of_char c :: nat) div 16 < 16" by (simp add: less_mult_imp_div_less)
  consider "c = quote_char" | "c = escape_char" |
    "c \<noteq> quote_char" "c \<noteq> escape_char" "(of_char c :: nat) < 32" |
    "c \<noteq> quote_char" "c \<noteq> escape_char" "\<not> (of_char c :: nat) < 32" by blast
  then show ?thesis
  proof cases
    case 3
    then have cp: "hex_value (hex_digit (of_char c div 16)) * 16 + hex_value (hex_digit (of_char c mod 16)) =
        of_char c" using hex_digit_lower ctl by simp
    from 3 assms show ?thesis
      by (simp add: write_char_def hex_digit_lower ctl) (simp add: numeral_eq_Suc)
  qed (use assms in \<open>simp_all add: write_char_def\<close>)
qed

lemma parse_string_write:
  "n + length (concat (map write_char s)) \<le> max_scalar_bytes lim + 8 \<Longrightarrow> utf8_valid (out @ s) \<Longrightarrow>
   parse_string lim n out (concat (map write_char s) @ quote_char # bs) = Inr (out @ s, bs)"
proof (induction s arbitrary: n out)
  case (Cons c s)
  then show ?case
    using parse_string_char [of n c lim out "concat (map write_char s) @ quote_char # bs"] by simp
qed simp

lemma write_to_not_Nil [simp]: "write_to v \<noteq> []"
  by (cases v rule: write_to.cases) (simp_all add: write_string_def)

lemma hd_write_to: "hd (write_to v @ bs) \<noteq> CHR '']''"
  by (cases v rule: write_to.cases) (simp_all add: write_string_def quote_char_def)

lemma comma_join_Cons: "ss \<noteq> [] \<Longrightarrow> comma_join (s # ss) = s @ '','' @ comma_join ss"
  by (cases ss) simp_all

lemma parse_items_write:
  assumes "vs \<noteq> []" and "length items + length vs \<le> max_collection_len lim"
    and "\<And>v bs. v \<in> set vs \<Longrightarrow> parse_value lim d (write_to v @ bs) = Inr (v, bs)"
  shows "parse_items lim d items (comma_join (map write_to vs) @ CHR '']'' # bs) = Inr (items @ vs, bs)"
  using assms
proof (induction vs arbitrary: items)
  case (Cons v vs)
  show ?case
  proof (cases "vs = []")
    case True
    with Cons.prems show ?thesis by (subst parse_items.simps) simp
  next
    case False
    with Cons have "parse_items lim d (items @ [v]) (comma_join (map write_to vs) @ CHR '']'' # bs) =
        Inr ((items @ [v]) @ vs, bs)" by simp
    with False Cons.prems show ?thesis
      by (subst parse_items.simps) (simp add: comma_join_Cons)
  qed
qed simp

lemma obj_insert_last:
  "\<forall>k' \<in> set (map fst kvs). k' < k \<Longrightarrow> obj_insert k v kvs = kvs @ [(k, v)]"
  by (induction k v kvs rule: obj_insert.induct) auto

definition write_entry :: "string \<times> canon \<Rightarrow> string" where
  "write_entry kv = write_string (fst kv) @ '':'' @ write_to (snd kv)"

lemma write_to_object: "write_to (CObject kvs) = ''{'' @ comma_join (map write_entry kvs) @ ''}''"
  by (simp add: write_entry_def [abs_def])

definition last_key_of :: "(string \<times> 'v) list \<Rightarrow> string option" where
  "last_key_of kvs = (if kvs = [] then None else Some (fst (last kvs)))"

lemma last_key_of_snoc [simp]: "last_key_of (kvs @ [kv]) = Some (fst kv)"
  by (simp add: last_key_of_def)

lemma parse_member_write:
  assumes "sorted_wrt (<) (map fst (acc @ [kv]))" and "length acc < max_collection_len lim"
    and "is_ascii (fst kv)" "string_fits lim (fst kv)"
    and "\<And>bs. parse_value lim d (write_to (snd kv) @ bs) = Inr (snd kv, bs)"
  shows "parse_members lim d (last_key_of acc) acc (write_entry kv @ c # bs) =
    (if c = CHR '','' then parse_members lim d (last_key_of (acc @ [kv])) (acc @ [kv]) bs
     else if c = CHR ''}'' then Inr (acc @ [kv], bs) else Inl NonCanonicalEncoding)"
proof -
  obtain k v where kv: "kv = (k, v)" by (cases kv)
  have less: "\<forall>k' \<in> set (map fst acc). k' < k" using assms(1) kv by (auto simp: sorted_wrt_append)
  then have last: "\<not> (case last_key_of acc of None \<Rightarrow> False | Some prev \<Rightarrow> k \<le> prev)"
    by (auto simp: last_key_of_def not_le)
  have str: "parse_string lim 0 [] (concat (map write_char k) @ quote_char # r) = Inr (k, r)" for r
    using assms(3,4) kv parse_string_write [of 0 k lim "[]" r] by (simp add: string_fits_def is_ascii_utf8)
  show ?thesis using assms(2,3,5) last less kv str
    by (subst parse_members.simps)
      (simp add: write_entry_def write_string_def obj_insert_last)
qed

lemma parse_members_write:
  assumes "kvs \<noteq> []" and "sorted_wrt (<) (map fst (acc @ kvs))"
    and "length acc + length kvs \<le> max_collection_len lim"
    and "\<And>kv bs. kv \<in> set kvs \<Longrightarrow> is_ascii (fst kv) \<and> string_fits lim (fst kv) \<and>
      parse_value lim d (write_to (snd kv) @ bs) = Inr (snd kv, bs)"
  shows "parse_members lim d (last_key_of acc) acc (comma_join (map write_entry kvs) @ CHR ''}'' # bs) =
    Inr (acc @ kvs, bs)"
  using assms
proof (induction kvs arbitrary: acc)
  case (Cons kv kvs)
  have "sorted_wrt (<) (map fst (acc @ [kv]))" using Cons.prems(2) by (auto simp: sorted_wrt_append)
  note step = parse_member_write [OF this]
  show ?case
  proof (cases "kvs = []")
    case True
    with Cons.prems step [of lim d "CHR ''}''" bs] show ?thesis by simp
  next
    case False
    have "parse_members lim d (last_key_of (acc @ [kv])) (acc @ [kv])
        (comma_join (map write_entry kvs) @ CHR ''}'' # bs) = Inr ((acc @ [kv]) @ kvs, bs)"
      using Cons.IH [of "acc @ [kv]"] Cons.prems False by simp
    with False Cons.prems step [of lim d "CHR '',''"] show ?thesis by (simp add: comma_join_Cons)
  qed
qed simp

lemma comma_join_Nil_iff: "list_all (\<lambda>s. s \<noteq> []) ss \<Longrightarrow> comma_join ss = [] \<longleftrightarrow> ss = []"
  by (cases ss rule: comma_join.cases) auto

lemma hd_comma_join: "ss \<noteq> [] \<Longrightarrow> hd ss \<noteq> [] \<Longrightarrow> comma_join ss \<noteq> [] \<and> hd (comma_join ss) = hd (hd ss)"
  by (cases ss rule: comma_join.cases) auto

lemma parse_value_write:
  "canon_wf v \<Longrightarrow> canon_fits lim d v \<Longrightarrow> parse_value lim d (write_to v @ bs) = Inr (v, bs)"
proof (induction v arbitrary: d bs)
  case (CBool b)
  then show ?case by (cases b) (simp_all add: expect_lit_def quote_char_def)
next
  case (CStr s)
  then show ?case using parse_string_write [of 0 s lim "[]" bs]
    by (simp add: write_string_def string_fits_def) (simp add: quote_char_def)
next
  case (CArray vs)
  show ?case
  proof (cases "vs = []")
    case True
    with CArray show ?thesis by (simp add: quote_char_def)
  next
    case False
    have "parse_items lim (Suc d) [] (comma_join (map write_to vs) @ CHR '']'' # bs) = Inr ([] @ vs, bs)"
      using CArray False by (intro parse_items_write) (auto simp: list_all_iff)
    moreover have "hd (comma_join (map write_to vs) @ CHR '']'' # bs) \<noteq> CHR '']''"
      using False hd_write_to [of "hd vs" "[]"] hd_comma_join [of "map write_to vs"]
      by (cases vs) auto
    ultimately show ?thesis using CArray.prems False by (simp add: quote_char_def)
  qed
next
  case (CObject kvs)
  show ?case
  proof (cases "kvs = []")
    case True
    with CObject show ?thesis by (simp add: quote_char_def)
  next
    case False
    have "parse_value lim (Suc d) (write_to (snd kv) @ bs) = Inr (snd kv, bs)" if "kv \<in> set kvs" for kv bs
      using CObject that by (cases kv) (fastforce simp: list_all_iff)
    then have "parse_members lim (Suc d) (last_key_of ([] :: (string \<times> canon) list)) [] (comma_join (map write_entry kvs) @ CHR ''}'' # bs) =
        Inr ([] @ kvs, bs)"
      using CObject.prems False by (intro parse_members_write) (auto simp: list_all_iff)
    moreover have "hd (comma_join (map write_entry kvs) @ CHR ''}'' # bs) \<noteq> CHR ''}''"
      using False hd_comma_join [of "map write_entry kvs"]
      by (cases kvs) (auto simp: write_entry_def write_string_def quote_char_def)
    ultimately show ?thesis using CObject.prems False
      by (simp add: write_to_object last_key_of_def quote_char_def del: write_to.simps)
  qed
qed (simp add: expect_lit_def quote_char_def)

section \<open>What the decoder accepts\<close>

text \<open>
  A parser's outcome on \<open>n\<close> bytes: one of the two error codes, or a value with property \<open>P\<close> and a
  rest shorter than the input. In particular the length guards of the loops never fire.
\<close>

definition parsed :: "nat \<Rightarrow> ('a \<Rightarrow> bool) \<Rightarrow> ('a \<times> string) core_result \<Rightarrow> bool" where
  "parsed n P res =
     (case res of
        Inl e \<Rightarrow> e \<in> {NonCanonicalEncoding, ResourceLimit}
      | Inr (v, r) \<Rightarrow> length r < n \<and> P v)"

lemma parsed_Inl: "e \<in> {NonCanonicalEncoding, ResourceLimit} \<Longrightarrow> parsed n P (Inl e)"
  and parsed_Inr: "length r < n \<Longrightarrow> P v \<Longrightarrow> parsed n P (Inr (v, r))"
  by (auto simp: parsed_def)

lemma parsed_if: "(c \<Longrightarrow> parsed n P a) \<Longrightarrow> (\<not> c \<Longrightarrow> parsed n P b) \<Longrightarrow> parsed n P (if c then a else b)"
  by simp

lemma parsed_list:
  "(r = [] \<Longrightarrow> parsed n P a) \<Longrightarrow> (\<And>x xs. r = x # xs \<Longrightarrow> parsed n P (f x xs)) \<Longrightarrow>
   parsed n P (case r of [] \<Rightarrow> a | x # xs \<Rightarrow> f x xs)"
  by (cases r) simp_all

lemma parsed_bind:
  "parsed m P x \<Longrightarrow> (\<And>v r. x = Inr (v, r) \<Longrightarrow> length r < m \<Longrightarrow> P v \<Longrightarrow> parsed n Q (f v r)) \<Longrightarrow>
   parsed n Q (rbind x (\<lambda>(v, r). f v r))"
  by (auto simp: parsed_def split: sum.splits)

lemma parsed_mono: "parsed m P x \<Longrightarrow> m \<le> n \<Longrightarrow> parsed n P x"
  by (auto simp: parsed_def split: sum.splits)

lemmas parsed_intros = parsed_if parsed_list parsed_Inl parsed_Inr

definition string_ok :: "limits \<Rightarrow> string \<Rightarrow> bool" where
  "string_ok lim s \<longleftrightarrow> utf8_valid s \<and> string_fits lim s"

lemma length_write_char:
  "length (write_char quote_char) = 2" "length (write_char escape_char) = 2"
  "c \<noteq> quote_char \<Longrightarrow> c \<noteq> escape_char \<Longrightarrow> \<not> (of_char c :: nat) < 32 \<Longrightarrow> length (write_char c) = 1"
  by (simp_all add: write_char_def)

lemma length_write_low: "(of_char c :: nat) < 32 \<Longrightarrow> length (write_char c) = 6"
  by (auto simp: write_char_def quote_char_def escape_char_def)

lemma length_write_control: "\<not> 32 \<le> (cp :: nat) \<Longrightarrow> length (write_char (char_of cp)) = 6"
  by (rule length_write_low) simp

lemma parse_string_parsed:
  "n = length (concat (map write_char out)) \<Longrightarrow> parsed (length bs) (string_ok lim) (parse_string lim n out bs)"
proof (induction lim n out bs rule: parse_string.induct)
  case (2 lim n out c bs)
  have n: "n + k = length (concat (map write_char (out @ [c])))" if "length (write_char c) = k" for c k
    using 2(5) that by simp
  show ?case
    unfolding parse_string.simps(2) Let_def
    by (intro parsed_intros; ((rule parsed_mono [OF 2(1)] parsed_mono [OF 2(2)]
          parsed_mono [OF 2(3)] parsed_mono [OF 2(4)]; (rule n length_write_char length_write_control)?);
          (rule n length_write_char length_write_control)?)?;
        (assumption | rule refl | (simp add: 2(5) string_ok_def string_fits_def; fail))?)
qed (simp add: parsed_def)

lemmas parse_string_ok = parse_string_parsed [of 0 "[]", simplified]

definition value_ok :: "limits \<Rightarrow> nat \<Rightarrow> canon \<Rightarrow> bool" where
  "value_ok lim d v \<longleftrightarrow> canon_wf v \<and> canon_fits lim d v"

definition items_ok :: "limits \<Rightarrow> nat \<Rightarrow> canon list \<Rightarrow> bool" where
  "items_ok lim d vs \<longleftrightarrow> list_all (value_ok lim d) vs \<and> length vs \<le> max_collection_len lim"

definition entries_ok :: "limits \<Rightarrow> nat \<Rightarrow> (string \<times> canon) list \<Rightarrow> bool" where
  "entries_ok lim d kvs \<longleftrightarrow>
     sorted_wrt (<) (map fst kvs) \<and> length kvs \<le> max_collection_len lim \<and>
     list_all (\<lambda>kv. is_ascii (fst kv) \<and> string_fits lim (fst kv) \<and> value_ok lim d (snd kv)) kvs"

lemma value_ok_CArray: "items_ok lim (Suc d) vs \<Longrightarrow> d < max_depth lim \<Longrightarrow> value_ok lim d (CArray vs)"
  by (simp add: items_ok_def value_ok_def list_all_iff)

lemma value_ok_CObject: "entries_ok lim (Suc d) kvs \<Longrightarrow> d < max_depth lim \<Longrightarrow> value_ok lim d (CObject kvs)"
  by (simp add: entries_ok_def value_ok_def list_all_iff)

lemma entries_ok_snoc:
  assumes ok: "entries_ok lim d kvs" "is_ascii k" "string_fits lim k" "value_ok lim d v"
    and last: "\<not> (case last_key_of kvs of None \<Rightarrow> False | Some prev \<Rightarrow> k \<le> prev)"
    and len: "\<not> max_collection_len lim < length (obj_insert k v kvs)"
  shows "last_key_of (obj_insert k v kvs) = Some k" and "entries_ok lim d (obj_insert k v kvs)"
proof -
  have less: "\<forall>k' \<in> set (map fst kvs). k' < k"
  proof (cases kvs rule: rev_cases)
    case (snoc ys y)
    then have "fst y < k" "\<forall>k' \<in> set (map fst ys). k' < fst y"
      using ok last by (simp_all add: entries_ok_def sorted_wrt_append not_le)
    then show ?thesis unfolding snoc by auto
  qed simp
  then have insert: "obj_insert k v kvs = kvs @ [(k, v)]" by (intro obj_insert_last) simp
  then show "last_key_of (obj_insert k v kvs) = Some k" by simp
  from less ok len show "entries_ok lim d (obj_insert k v kvs)"
    unfolding insert by (simp add: entries_ok_def sorted_wrt_append)
qed

lemma parse_value_parsed:
  "parsed (length bs) (value_ok lim d) (parse_value lim d bs)"
  "items_ok lim d items \<Longrightarrow> parsed (length bs) (items_ok lim d) (parse_items lim d items bs)"
  "entries_ok lim d kvs \<Longrightarrow> lk = last_key_of kvs \<Longrightarrow>
   parsed (length bs) (entries_ok lim d) (parse_members lim d lk kvs bs)"
proof (induction lim d bs and lim d items bs and lim d lk kvs bs
    rule: parse_value_parse_items_parse_members.induct)
  case (2 lim d c bs)
  have lit: "parsed (length (c # bs)) (value_ok lim d) (expect_lit lit v (c # bs))"
    if "lit \<noteq> []" "value_ok lim d v" for lit v
    using that by (simp add: expect_lit_def parsed_def)
  show ?case
    unfolding parse_value.simps(2)
    by (intro parsed_if lit; (rule parsed_bind [OF parse_string_ok] parsed_bind [OF 2(1)]
          parsed_bind [OF 2(2)])?; (intro parsed_intros)?;
        (simp add: entries_ok_def items_ok_def last_key_of_def; fail)?;
        (rule value_ok_CArray value_ok_CObject; simp; fail)?;
        (simp add: value_ok_def string_ok_def; fail)?)
next
  case (3 lim d items bs)
  show ?case
    unfolding parse_items.simps [of lim d items bs]
    by (rule parsed_bind [OF 3(1)]; intro parsed_intros;
        (rule parsed_mono [OF 3(2)])?; (insert 3(3), simp add: items_ok_def; fail)?)
next
  case (4 lim d lk kvs bs)
  show ?case
    unfolding parse_members.simps [of lim d lk kvs bs] Let_def
  proof (intro parsed_intros; (simp; fail)?;
      rule parsed_bind [OF parse_string_ok]; intro parsed_intros; (simp; fail)?;
      rule parsed_bind [OF 4(1)]; (assumption | rule refl)?; intro parsed_intros; (simp; fail)?)
    fix q bs1 key bs2 v r c r'
    assume bs: "bs = q # bs1" "\<not> q \<noteq> quote_char" "parse_string lim 0 [] bs1 = Inr (key, bs2)"
      and key: "string_ok lim key" "\<not> \<not> is_ascii key" "\<not> (case lk of None \<Rightarrow> False | Some x \<Rightarrow> key \<le> x)"
      and bs2: "\<not> (bs2 = [] \<or> hd bs2 \<noteq> CHR '':'')" "\<not> \<not> length bs2 < length bs"
      and v: "parse_value lim d (tl bs2) = Inr (v, r)" "value_ok lim d v"
      and r: "\<not> max_collection_len lim < length (obj_insert key v kvs)" "\<not> \<not> length r < length bs"
        "r = c # r'"
    have ok: "last_key_of (obj_insert key v kvs) = Some key" "entries_ok lim d (obj_insert key v kvs)"
      using entries_ok_snoc [of lim d kvs key v] 4(3,4) key v(2) r(1) by (simp_all add: string_ok_def)
    then show "entries_ok lim d (obj_insert key v kvs)" by simp
    assume "c = CHR '',''"
    from 4(2) [OF bs refl key(2,3) bs2 v(1) refl refl r this ok(2) ok(1) [symmetric]] r(2,3)
    show "parsed (length bs) (entries_ok lim d) (parse_members lim d (Some key) (obj_insert key v kvs) r')"
      by (auto intro: parsed_mono)
  qed
qed (simp add: parsed_def)

text \<open>
  The decoder inverts the encoder on well-formed values inside the limits, accepts nothing else, and
  fails with one of two codes.
\<close>

lemma canon_decode_encode:
  assumes "canon_wf v" "canon_fits lim 0 v" "length (canon_encode v) \<le> max_payload_bytes lim"
  shows "canon_decode (canon_encode v) lim = Inr v"
  using assms parse_value_write [of v lim 0 "[]"] by (simp add: canon_decode_def canon_encode_def)

lemma canon_decode_sound:
  assumes "canon_decode bs lim = Inr v"
  shows "canon_wf v" "canon_fits lim 0 v" "canon_encode v = bs" "length bs \<le> max_payload_bytes lim"
  using assms parse_value_parsed(1) [of "of_bytes bs" lim 0]
  by (auto simp: canon_decode_def parsed_def value_ok_def rbind_def split: sum.splits if_splits)


text \<open>
  C15: whatever bytes it is given, \<open>CanonValue::decode\<close> returns a value or one of the two codes
  \<open>NonCanonicalEncoding\<close> and \<open>ResourceLimit\<close>; no other failure is possible.
\<close>

theorem canon_decode_errors:
  "(\<exists>v. canon_decode bs lim = Inr v) \<or>
   canon_decode bs lim = Inl NonCanonicalEncoding \<or> canon_decode bs lim = Inl ResourceLimit"
  using parse_value_parsed(1) [of "of_bytes bs" lim 0]
  by (auto simp: canon_decode_def parsed_def rbind_def split: sum.splits)

end
