(* ===== verification/Codec.thy ===== *)
theory Codec
  imports Canon "HOL-Library.Multiset"
begin

text \<open>
  The \<open>Canonical\<close> trait of \<^verbatim>\<open>canon.rs\<close>: typed encoding and strict typed decoding, the contract an
  implementation has to meet as the locale \<open>canonical\<close>, and its instances for the base types,
  options, vectors and sorted sets.
\<close>

section \<open>The encoding determines the value\<close>

lemma length_comma_join:
  "x \<in> set ss \<Longrightarrow> length x \<le> length (comma_join ss)"
  "ss \<noteq> [] \<Longrightarrow> length ss \<le> Suc (length (comma_join ss))"
  by (induction ss rule: comma_join.induct) auto

lemma canon_fits_large:
  "d + length (write_to v) \<le> max_depth lim \<Longrightarrow> length (write_to v) \<le> max_collection_len lim \<Longrightarrow>
   length (write_to v) \<le> max_scalar_bytes lim \<Longrightarrow> canon_fits lim d v"
proof (induction v arbitrary: d)
  case (CStr s)
  then show ?case by (simp add: string_fits_def write_string_def)
next
  case (CArray vs)
  show ?case
  proof (cases "vs = []")
    case False
    have "length (write_to x) \<le> length (comma_join (map write_to vs))" if "x \<in> set vs" for x
      using that length_comma_join(1) [of "write_to x" "map write_to vs"] by simp
    then have "canon_fits lim (Suc d) x" if "x \<in> set vs" for x
      using CArray that by fastforce
    with CArray False length_comma_join(2) [of "map write_to vs"] show ?thesis
      by (simp add: list_all_iff)
  qed (use CArray in simp)
next
  case (CObject kvs)
  show ?case
  proof (cases "kvs = []")
    case False
    define n where "n = length (comma_join (map write_entry kvs))"
    have size: "Suc (Suc (d + n)) \<le> max_depth lim" "Suc (Suc n) \<le> max_collection_len lim"
      "Suc (Suc n) \<le> max_scalar_bytes lim"
      using CObject.prems unfolding write_to_object n_def by simp_all
    have entry: "length (concat (map write_char (fst kv))) + length (write_to (snd kv)) + 3 \<le> n"
      if "kv \<in> set kvs" for kv
      using that length_comma_join(1) [of "write_entry kv" "map write_entry kvs"]
      by (simp add: n_def) (simp add: write_entry_def write_string_def)
    have "string_fits lim (fst kv)" if "kv \<in> set kvs" for kv
      using size entry [OF that] by (simp add: string_fits_def)
    moreover have "canon_fits lim (Suc d) (snd kv)" if "kv \<in> set kvs" for kv
      using CObject.IH [OF that, of "snd kv" "Suc d"] size entry [OF that] by (simp add: snds.simps)
    moreover have "length kvs \<le> max_collection_len lim"
      using False length_comma_join(2) [of "map write_entry kvs"] size by (simp add: n_def)
    ultimately show ?thesis using size by (simp add: list_all_iff)
  qed (use CObject in simp)
qed simp_all

lemma canon_encode_inject:
  assumes wf: "canon_wf u" "canon_wf v" and eq: "canon_encode u = canon_encode v"
  shows "u = v"
proof -
  have same: "write_to u = write_to v" using eq by (simp add: canon_encode_def)
  obtain lim :: limits where lim: "max_depth lim = length (write_to v)"
    "max_collection_len lim = length (write_to v)" "max_scalar_bytes lim = length (write_to v)"
    "max_payload_bytes lim = length (write_to v)"
    using that [of "limits_v1 \<lparr>max_depth := length (write_to v), max_collection_len := length (write_to v),
      max_scalar_bytes := length (write_to v), max_payload_bytes := length (write_to v)\<rparr>"] by simp
  have "canon_decode (canon_encode u) lim = Inr u"
    by (rule canon_decode_encode [OF wf(1) canon_fits_large]) (simp_all add: lim same canon_encode_def)
  moreover have "canon_decode (canon_encode v) lim = Inr v"
    by (rule canon_decode_encode [OF wf(2) canon_fits_large]) (simp_all add: lim canon_encode_def)
  ultimately show ?thesis unfolding eq by (metis sum.inject(2))
qed

section \<open>The trait\<close>

definition typed_encode :: "('a \<Rightarrow> canon) \<Rightarrow> 'a \<Rightarrow> bytes" where
  "typed_encode to_canon x = canon_encode (to_canon x)"

definition typed_decode :: "('a \<Rightarrow> canon) \<Rightarrow> (canon \<Rightarrow> 'a core_result) \<Rightarrow> bytes \<Rightarrow> limits \<Rightarrow> 'a core_result" where
  "typed_decode to_canon from_canon bs lim =
     rbind (canon_decode bs lim)
       (\<lambda>v. rbind (from_canon v)
         (\<lambda>t. if to_canon t \<noteq> v then Inl NonCanonicalEncoding else Inr t))"

text \<open>
  The strict decoder accepts only what the type's own encoder produces, whatever \<open>from_canon\<close> is.
\<close>

lemma typed_decode_sound: "typed_decode to_canon from_canon bs lim = Inr x \<Longrightarrow> typed_encode to_canon x = bs"
  by (auto simp: typed_decode_def typed_encode_def rbind_eq_Inr_iff split: if_splits
      dest: canon_decode_sound(3))

locale canonical =
  fixes to_canon :: "'a \<Rightarrow> canon"
    and from_canon :: "canon \<Rightarrow> 'a core_result"
    and valid :: "'a \<Rightarrow> bool"
  assumes from_to: "valid x \<Longrightarrow> from_canon (to_canon x) = Inr x"
    and to_canon_wf: "valid x \<Longrightarrow> canon_wf (to_canon x)"
    and to_canon_not_null: "valid x \<Longrightarrow> to_canon x \<noteq> CNull"
    and from_valid: "canon_wf v \<Longrightarrow> from_canon v = Inr x \<Longrightarrow> valid x"
begin

lemma round_trip:
  "valid x \<Longrightarrow> canon_fits lim 0 (to_canon x) \<Longrightarrow>
   length (typed_encode to_canon x) \<le> max_payload_bytes lim \<Longrightarrow>
   typed_decode to_canon from_canon (typed_encode to_canon x) lim = Inr x"
  by (simp add: typed_decode_def typed_encode_def canon_decode_encode to_canon_wf from_to)

lemma to_canon_inject: "valid x \<Longrightarrow> valid y \<Longrightarrow> to_canon x = to_canon y \<longleftrightarrow> x = y"
  by (metis from_to sum.inject(2))

lemma encode_inject: "valid x \<Longrightarrow> valid y \<Longrightarrow> typed_encode to_canon x = typed_encode to_canon y \<longleftrightarrow> x = y"
  unfolding typed_encode_def by (metis canon_encode_inject to_canon_inject to_canon_wf)

lemma decode_iff:
  "typed_decode to_canon from_canon bs lim = Inr x \<longleftrightarrow>
     valid x \<and> canon_fits lim 0 (to_canon x) \<and> length bs \<le> max_payload_bytes lim \<and>
     bs = typed_encode to_canon x"
proof
  assume "typed_decode to_canon from_canon bs lim = Inr x"
  then have *: "canon_decode bs lim = Inr (to_canon x)" "from_canon (to_canon x) = Inr x"
    by (auto simp: typed_decode_def rbind_eq_Inr_iff split: if_splits)
  with canon_decode_sound [OF *(1)] from_valid show
    "valid x \<and> canon_fits lim 0 (to_canon x) \<and> length bs \<le> max_payload_bytes lim \<and>
     bs = typed_encode to_canon x"
    by (auto simp: typed_encode_def)
qed (use round_trip in auto)

end

text \<open>\<open>Vec<T>\<close>, \<open>Option<T>\<close> and the sorted sets written by \<open>fset\<close> and read by \<open>decode_set\<close>.\<close>

definition vec_to_canon :: "('a \<Rightarrow> canon) \<Rightarrow> 'a list \<Rightarrow> canon" where
  "vec_to_canon to_canon xs = CArray (map to_canon xs)"

definition vec_from_canon :: "(canon \<Rightarrow> 'a core_result) \<Rightarrow> canon \<Rightarrow> 'a list core_result" where
  "vec_from_canon from_canon v = rbind (as_array v) (rmapM from_canon)"

definition option_from_canon :: "(canon \<Rightarrow> 'a core_result) \<Rightarrow> canon \<Rightarrow> 'a option core_result" where
  "option_from_canon from_canon v =
     (if is_null v then Inr None else rbind (from_canon v) (\<lambda>x. Inr (Some x)))"

definition fset_canon :: "('a \<Rightarrow> canon) \<Rightarrow> 'a list \<Rightarrow> exc + canon" where
  "fset_canon to_canon xs =
     (case c_set (map to_canon xs) of Inl _ \<Rightarrow> Inl Panic | Inr v \<Rightarrow> Inr v)"

lemma rmapM_map_id: "(\<And>x. x \<in> set xs \<Longrightarrow> f (g x) = Inr x) \<Longrightarrow> rmapM f (map g xs) = Inr xs"
  by (induction xs) simp_all

lemma adjacent_distinct_sorted: "sorted xs \<Longrightarrow> adjacent_distinct xs \<longleftrightarrow> distinct (xs :: 'b :: linorder list)"
  by (induction xs rule: adjacent_distinct.induct) (auto dest: antisym)

lemma set_sorted_iff:
  "set_sorted p vs \<longleftrightarrow>
     sorted_wrt (<) ((case p of None \<Rightarrow> [] | Some b \<Rightarrow> [b]) @ map canon_encode vs)"
proof (induction p vs rule: set_sorted.induct)
  case (2 prev v vs)
  then show ?case
    by (cases prev) (auto simp: not_le dest: less_trans)
qed (simp split: option.splits)

context canonical
begin

lemma rmapM_valid:
  "list_all canon_wf vs \<Longrightarrow> rmapM from_canon vs = Inr xs \<Longrightarrow> list_all valid xs"
  by (induction vs arbitrary: xs) (auto simp: rbind_eq_Inr_iff from_valid)

lemma vec_canonical: "canonical (vec_to_canon to_canon) (vec_from_canon from_canon) (list_all valid)"
proof unfold_locales
  fix xs assume "list_all valid xs"
  then show "vec_from_canon from_canon (vec_to_canon to_canon xs) = Inr xs"
    by (auto simp: vec_to_canon_def vec_from_canon_def as_array_def list_all_iff from_to intro!: rmapM_map_id)
next
  fix v xs assume "canon_wf v" "vec_from_canon from_canon v = Inr xs"
  then show "list_all valid xs"
    by (auto simp: vec_from_canon_def as_array_def rbind_eq_Inr_iff split: canon.splits intro: rmapM_valid)
qed (auto simp: vec_to_canon_def list_all_iff to_canon_wf)

lemma option_round_trip:
  "pred_option valid x \<Longrightarrow> option_from_canon from_canon (c_option to_canon x) = Inr x"
  by (cases x) (simp_all add: option_from_canon_def c_option_def is_null_def from_to to_canon_not_null)

lemma option_valid:
  "canon_wf v \<Longrightarrow> option_from_canon from_canon v = Inr x \<Longrightarrow> pred_option valid x"
  by (auto simp: option_from_canon_def rbind_eq_Inr_iff split: if_splits intro: from_valid)

lemma option_wf: "pred_option valid x \<Longrightarrow> canon_wf (c_option to_canon x)"
  by (cases x) (simp_all add: c_option_def to_canon_wf)

end

text \<open>
  Set fields: strictly ascending in the element order. On a list with duplicates \<open>fset\<close> panics;
  \<open>fset_value\<close> is its value on the lists where it does not.
\<close>

definition fset_value :: "('a \<Rightarrow> canon) \<Rightarrow> 'a list \<Rightarrow> canon" where
  "fset_value to_canon xs = (case fset_canon to_canon xs of Inl _ \<Rightarrow> CNull | Inr v \<Rightarrow> v)"

definition set_ok :: "('a \<Rightarrow> bool) \<Rightarrow> ('a \<Rightarrow> 'k :: linorder) \<Rightarrow> 'a list \<Rightarrow> bool" where
  "set_ok valid key xs \<longleftrightarrow> list_all valid xs \<and> sorted_wrt (<) (map key xs)"

lemma set_ok_distinct:
  assumes "set_ok valid key xs"
  shows "list_all valid xs" "distinct xs" "inj_on key (set xs)" "sorted (map key xs)"
proof -
  have "distinct (map key xs)" "sorted (map key xs)" "list_all valid xs"
    using assms by (auto simp: set_ok_def strict_sorted_iff)
  then show "list_all valid xs" "distinct xs" "inj_on key (set xs)" "sorted (map key xs)"
    by (simp_all add: distinct_map)
qed

locale exact_canonical = canonical +
  assumes exact: "canon_wf v \<Longrightarrow> from_canon v = Inr x \<Longrightarrow> v = to_canon x"
begin

lemma fset_canon_Inr:
  assumes xs: "list_all valid xs" "distinct xs"
  obtains vs where "fset_canon to_canon xs = Inr (CArray vs)" "mset vs = image_mset to_canon (mset xs)"
    "sorted_wrt (<) (map canon_encode vs)"
proof -
  define enc where "enc = sort_key fst (map (\<lambda>v. (canon_encode v, v)) (map to_canon xs))"
  define vs where "vs = map snd enc"
  have members: "set enc = (\<lambda>v. (canon_encode v, v)) ` to_canon ` set xs"
    unfolding enc_def by (simp add: image_image)
  have fst_enc: "map fst enc = map canon_encode vs" unfolding vs_def by (auto simp: members)
  have perm: "mset vs = image_mset to_canon (mset xs)"
    unfolding vs_def enc_def by (simp add: image_mset.compositionality o_def)
  have "inj_on (canon_encode \<circ> to_canon) (set xs)"
    using xs(1) encode_inject by (auto simp: inj_on_def list_all_iff typed_encode_def)
  moreover have "mset (map canon_encode vs) = mset (map (canon_encode \<circ> to_canon) xs)"
    using perm by (simp add: image_mset.compositionality)
  ultimately have "distinct (map canon_encode vs)"
    using xs(2) by (metis distinct_map mset_eq_imp_distinct_iff)
  moreover have sorted_enc: "sorted (map fst enc)" unfolding enc_def by simp
  ultimately have strict: "sorted_wrt (<) (map canon_encode vs)"
    by (simp add: fst_enc strict_sorted_iff)
  have "c_set (map to_canon xs) = Inr (CArray vs)"
    using strict sorted_enc unfolding c_set_def Let_def enc_def [symmetric] vs_def [symmetric]
    by (simp add: adjacent_distinct_sorted strict_sorted_iff fst_enc)
  then show ?thesis using that [of vs] perm strict by (simp add: fset_canon_def)
qed

lemma set_from_to:
  assumes ok: "set_ok valid key xs"
  shows "decode_set key from_canon (fset_value to_canon xs) = Inr xs"
    and "canon_wf (fset_value to_canon xs)" and "fset_value to_canon xs \<noteq> CNull"
proof -
  note xs = set_ok_distinct [OF ok]
  obtain vs where v: "fset_canon to_canon xs = Inr (CArray vs)"
    and perm: "mset vs = image_mset to_canon (mset xs)" and strict: "sorted_wrt (<) (map canon_encode vs)"
    using fset_canon_Inr [OF xs(1,2)] .
  have members: "set vs = to_canon ` set xs" using perm by (metis set_image_mset set_mset_mset)
  have from_vs: "from_canon w = Inr (projr (from_canon w))" if "w \<in> set vs" for w
    using that xs(1) members by (auto simp: list_all_iff from_to)
  define ys where "ys = map (\<lambda>w. projr (from_canon w)) vs"
  have all: "rmapM from_canon vs = Inr ys"
    unfolding ys_def using from_vs by (auto simp: rmapM_eq_Inr_iff list_all2_map2 list_all2_same)
  have "mset ys = image_mset (\<lambda>x. projr (from_canon (to_canon x))) (mset xs)"
    unfolding ys_def by (simp add: perm image_mset.compositionality o_def)
  moreover have "\<dots> = image_mset id (mset xs)"
    using xs(1) by (intro image_mset_cong) (auto simp: list_all_iff from_to)
  ultimately have mset: "mset ys = mset xs" by simp
  then have "sort_key key ys = xs"
    using xs(3,4) by (intro sort_key_inj_key_eq) (auto dest: mset_eq_setD)
  with all show "decode_set key from_canon (fset_value to_canon xs) = Inr xs"
    using strict v by (simp add: fset_value_def decode_set_def as_set_def as_array_def set_sorted_iff)
  show "canon_wf (fset_value to_canon xs)" "fset_value to_canon xs \<noteq> CNull"
    using v xs(1) to_canon_wf members by (auto simp: fset_value_def list_all_iff)
qed

lemma rmapM_exact: "list_all canon_wf vs \<Longrightarrow> rmapM from_canon vs = Inr xs \<Longrightarrow> vs = map to_canon xs"
  by (induction vs arbitrary: xs) (auto simp: rbind_eq_Inr_iff exact)

lemma set_valid:
  assumes wf: "canon_wf v" and v: "decode_set key from_canon v = Inr xs" and "inj_on key (Collect valid)"
  shows "set_ok valid key xs"
proof -
  obtain vs ys where vs: "v = CArray vs" "set_sorted None vs" "rmapM from_canon vs = Inr ys"
    and xs: "xs = sort_key key ys"
    using v by (auto simp: decode_set_def as_set_def as_array_def rbind_eq_Inr_iff split: canon.splits if_splits)
  have "vs = map to_canon ys" using rmapM_exact vs wf by simp
  moreover have "distinct (map canon_encode vs)" using vs(2) by (simp add: set_sorted_iff strict_sorted_iff)
  ultimately have "distinct ys" by (auto simp: distinct_map)
  moreover have valid: "list_all valid ys" using rmapM_valid vs wf by simp
  then have "inj_on key (set ys)"
    using assms(3) by (auto simp: list_all_iff inj_on_def)
  ultimately have "distinct (map key ys)" by (simp add: distinct_map)
  then have "distinct (map key xs)" using xs by (simp add: distinct_map)
  with valid show ?thesis by (simp add: set_ok_def strict_sorted_iff xs list_all_iff)
qed

end

section \<open>Base types\<close>

definition canon_id_from :: "canon \<Rightarrow> canon core_result" where
  "canon_id_from v = Inr v"

definition i64_to_canon :: "i64 \<Rightarrow> canon" where
  "i64_to_canon v = c_int (sint v)"

interpretation c_string: exact_canonical CStr as_str utf8_valid
  by unfold_locales (auto simp: as_str_def split: canon.splits)

interpretation c_boolean: exact_canonical CBool as_bool "\<lambda>_. True"
  by unfold_locales (auto simp: as_bool_def split: canon.splits)

lemma hex_decode_exact: "hex_decode s = Inr b \<Longrightarrow> s = hex_encode b"
  by (auto simp: hex_decode_def hex_pairs_Inr split: if_splits)

interpretation c_hex: exact_canonical c_bytes as_bytes "\<lambda>_. True"
  by unfold_locales
    (auto simp: c_bytes_def as_bytes_def as_str_def hex_decode_encode is_ascii_utf8
      split: canon.splits dest: hex_decode_exact)

lemma show_uint: "show_int (uint w) = show_nat (unat w)"
  by (simp add: show_int_def not_less)

lemma uint_bounds: "uint (x :: u64) < 2 ^ 64" "uint (y :: u32) < 2 ^ 32"
  using uint_bounded [of x] uint_bounded [of y] by simp_all

lemma parse_show_unat:
  "parse_canonical_int (show_nat (unat (x :: u64))) = Inr (uint x)"
  "parse_canonical_int (show_nat (unat (y :: u32))) = Inr (uint y)"
  unfolding show_uint [symmetric] using uint_bounds(1) [of x] uint_bounds(2) [of y]
  by (auto intro!: parse_show_int)

lemma show_int_ascii: "is_ascii (show_int i)"
  by (simp add: show_int_def)

lemma u32_widen: "unat (ucast (x :: u32) :: u64) = unat x" "ucast (ucast (x :: u32) :: u64) = x"
proof -
  show "unat (ucast x :: u64) = unat x"
    using unat_bounds(2) [of x] by (simp add: unsigned_ucast_eq take_bit_nat_eq_self)
  show "ucast (ucast x :: u64) = x"
    by (rule bit_word_eqI) (simp add: bit_ucast_iff)
qed

interpretation c_u64: exact_canonical c_uint as_u64 "\<lambda>_. True"
proof unfold_locales
  fix x :: u64
  show "as_u64 (c_uint x) = Inr x"
    using uint_bounds(1) [of x] by (simp add: as_u64_def not_less c_uint_def as_str_def parse_show_unat)
next
  fix v and x :: u64 assume "as_u64 v = Inr x"
  then show "v = c_uint x"
    by (auto simp: as_u64_def as_str_def c_uint_def rbind_eq_Inr_iff unsigned_of_int take_bit_int_eq_self
        nat_take_bit_eq show_int_def split: canon.splits if_splits dest!: parse_canonical_int_spelling)
qed (simp_all add: c_uint_def is_ascii_utf8)

interpretation c_u32n: exact_canonical c_u32 as_u32 "\<lambda>_. True"
proof unfold_locales
  fix x :: u32
  show "as_u32 (c_u32 x) = Inr x"
    using uint_bounds(2) [of x] unat_bounds(2) [of x]
    by (simp add: as_u32_def as_u64_def not_less c_u32_def as_str_def parse_show_unat u32_widen)
next
  fix v and x :: u32 assume wf: "canon_wf v" and x: "as_u32 v = Inr x"
  then obtain w where w: "as_u64 v = Inr w" "unat w < 2 ^ 32" "x = ucast w"
    by (auto simp: as_u32_def rbind_eq_Inr_iff split: if_splits)
  then have "unat x = unat w" by (simp add: unsigned_ucast_eq take_bit_nat_eq_self)
  with c_u64.exact [OF wf w(1)] show "v = c_u32 x" by (simp add: c_uint_def c_u32_def)
qed (simp_all add: c_u32_def is_ascii_utf8)

interpretation c_i64: canonical i64_to_canon as_i64 "\<lambda>_. True"
proof unfold_locales
  fix x :: i64
  have "- (2 ^ 63) \<le> sint x" "sint x < 2 ^ 63"
    using sint_ge [of x] sint_lt [of x] by simp_all
  moreover from this have "\<bar>sint x\<bar> \<le> 2 ^ 127 - 1" by simp
  ultimately show "as_i64 (i64_to_canon x) = Inr x"
    by (simp add: as_i64_def as_i128_def i64_to_canon_def c_int_def as_str_def parse_show_int)
qed (simp_all add: i64_to_canon_def c_int_def show_int_ascii is_ascii_utf8)

section \<open>Object fields\<close>

lemma map_of_obj_insert: "map_of (obj_insert k v kvs) k' = (if k' = k then Some v else map_of kvs k')"
  by (induction k v kvs rule: obj_insert.induct) auto

lemma obj_insert_keys: "fst ` set (obj_insert k v kvs) = insert k (fst ` set kvs)"
  by (induction k v kvs rule: obj_insert.induct) auto

lemma map_of_obj_fold:
  "map_of (fold (\<lambda>(k, v). obj_insert k v) kvs acc) k =
     (case map_of (rev kvs) k of None \<Rightarrow> map_of acc k | Some v \<Rightarrow> Some v)"
  by (induction kvs arbitrary: acc) (auto simp: map_of_obj_insert map_add_def split: option.splits)

lemma obj_fold_keys:
  "fst ` set (fold (\<lambda>(k, v). obj_insert k v) kvs acc) = fst ` set kvs \<union> fst ` set acc"
proof (induction kvs arbitrary: acc)
  case (Cons kv kvs)
  then show ?case by (simp add: obj_insert_keys split: prod.splits)
qed simp

lemma obj_insert_wf:
  "canon_wf (CObject kvs) \<Longrightarrow> is_ascii k \<Longrightarrow> canon_wf v \<Longrightarrow> canon_wf (CObject (obj_insert k v kvs))"
proof (induction k v kvs rule: obj_insert.induct)
  case (2 k v k' v' kvs)
  have keys: "set (map fst (obj_insert k v kvs)) = insert k (fst ` set kvs)"
    by (simp add: obj_insert_keys)
  from 2 show ?case
    by (cases "k < k'"; cases "k = k'") (auto simp: keys simp flip: set_map dest: order.strict_trans)
qed simp

lemma canon_wf_obj [simp]:
  assumes "list_all (\<lambda>(k, v). is_ascii k \<and> canon_wf v) kvs"
  shows "canon_wf (c_obj kvs)"
proof -
  have "canon_wf (CObject (fold (\<lambda>(k, v). obj_insert k v) kvs acc))" if "canon_wf (CObject acc)" for acc
    using assms that
  proof (induction kvs arbitrary: acc)
    case (Cons kv kvs)
    then show ?case using obj_insert_wf by (cases kv) (simp del: canon_wf.simps)
  qed simp
  then show ?thesis by (simp add: c_obj_def)
qed

lemma c_obj_not_null [simp]: "c_obj kvs \<noteq> CNull"
  by (simp add: c_obj_def)

lemma c_field_obj [simp]:
  "c_field (c_obj kvs) k = (case map_of (rev kvs) k of None \<Rightarrow> Inl NonCanonicalEncoding | Some v \<Rightarrow> Inr v)"
  by (simp add: c_field_def c_obj_def as_object_def map_of_obj_fold split: option.splits)

lemma opt_field_obj [simp]:
  "opt_field (c_obj kvs) k =
     Inr (case map_of (rev kvs) k of None \<Rightarrow> None | Some v \<Rightarrow> if is_null v then None else Some v)"
  by (simp add: opt_field_def c_obj_def as_object_def map_of_obj_fold split: option.splits)

lemma expect_fields_obj [simp]:
  "expect_fields (c_obj kvs) names =
     (if set (map fst kvs) = set names then Inr () else Inl NonCanonicalEncoding)"
proof -
  define o' where "o' = fold (\<lambda>(k, v). obj_insert k v) kvs []"
  have keys: "fst ` set o' = set (map fst kvs)" by (simp add: o'_def obj_fold_keys)
  have "list_all (\<lambda>kv. fst kv \<in> set names) o' \<longleftrightarrow> set (map fst kvs) \<subseteq> set names"
    unfolding keys [symmetric] by (auto simp: list_all_iff)
  moreover have "list_all (\<lambda>f. map_of o' f \<noteq> None) names \<longleftrightarrow> set names \<subseteq> set (map fst kvs)"
    unfolding keys [symmetric] by (auto simp: list_all_iff map_of_eq_None_iff)
  ultimately show ?thesis
    by (auto simp: expect_fields_def c_obj_def as_object_def simp flip: o'_def)
qed

text \<open>What a successful decoder read came from a well-formed value.\<close>

lemma c_field_wf: "c_field v k = Inr x \<Longrightarrow> canon_wf v \<Longrightarrow> canon_wf x"
  by (auto simp: c_field_def as_object_def rbind_eq_Inr_iff list_all_iff split: canon.splits option.splits
      dest!: map_of_SomeD)

lemma opt_field_wf: "opt_field v k = Inr (Some x) \<Longrightarrow> canon_wf v \<Longrightarrow> canon_wf x"
  by (auto simp: opt_field_def as_object_def rbind_eq_Inr_iff list_all_iff
      split: canon.splits option.splits if_splits dest!: map_of_SomeD)

text \<open>The idiom \<open>T::from_canon(v.field(name)?)?\<close> of the record decoders.\<close>

definition field_as :: "canon \<Rightarrow> string \<Rightarrow> (canon \<Rightarrow> 'a core_result) \<Rightarrow> 'a core_result" where
  "field_as v name from = rbind (c_field v name) from"

lemma field_as_obj [simp]:
  "field_as (c_obj kvs) k from =
     (case map_of (rev kvs) k of None \<Rightarrow> Inl NonCanonicalEncoding | Some v \<Rightarrow> from v)"
  by (simp add: field_as_def split: option.splits)

lemma field_as_InrE:
  assumes "field_as v k from = Inr x" "canon_wf v"
  obtains w where "canon_wf w" "from w = Inr x"
  using assms by (auto simp: field_as_def rbind_eq_Inr_iff dest: c_field_wf)

lemma decode_bindE:
  assumes "rbind m f = Inr r"
  obtains x where "m = Inr x" "f x = Inr r"
  using assms by (auto simp: rbind_eq_Inr_iff)

text \<open>An object is determined by its fields.\<close>

lemma sorted_map_of_eq:
  assumes "sorted_wrt (<) (map fst a)" "sorted_wrt (<) (map fst b)" "map_of a = map_of b"
  shows "(a :: (string \<times> 'v) list) = b"
proof -
  have dist: "distinct (map fst a)" "distinct (map fst b)" and sorted: "sorted (map fst a)" "sorted (map fst b)"
    using assms by (auto simp: strict_sorted_iff)
  have eq: "set a = set b"
    using assms(3) map_of_eq_Some_iff [OF dist(1)] map_of_eq_Some_iff [OF dist(2)] by auto
  show ?thesis
    by (rule map_sorted_distinct_set_unique [of fst]) (use dist sorted eq in \<open>auto simp: distinct_map\<close>)
qed

lemma obj_insert_sorted: "sorted_wrt (<) (map fst kvs) \<Longrightarrow> sorted_wrt (<) (map fst (obj_insert k v kvs))"
proof (induction k v kvs rule: obj_insert.induct)
  case (2 k v k' v' kvs)
  have "set (map fst (obj_insert k v kvs)) = insert k (fst ` set kvs)" by (simp add: obj_insert_keys)
  with 2 show ?case
    by (cases "k < k'"; cases "k = k'") (auto simp flip: set_map dest: order.strict_trans)
qed simp

lemma obj_fold_sorted:
  "sorted_wrt (<) (map fst acc) \<Longrightarrow> sorted_wrt (<) (map fst (fold (\<lambda>(k, v). obj_insert k v) l acc))"
  by (induction l arbitrary: acc) (auto simp: obj_insert_sorted)

lemma expect_fields_Inr:
  "expect_fields v names = Inr () \<Longrightarrow> \<exists>kvs. v = CObject kvs \<and> fst ` set kvs = set names"
  by (auto simp: expect_fields_def as_object_def list_all_iff rbind_eq_Inr_iff map_of_eq_None_iff
      split: canon.splits if_splits)

lemma obj_exactI:
  assumes wf: "canon_wf v" and names: "expect_fields v names = Inr ()" "set names = fst ` set l"
    and dist: "distinct (map fst l)" and fields: "list_all (\<lambda>(k, w). c_field v k = Inr w) l"
  shows "v = c_obj l"
proof -
  obtain kvs where v: "v = CObject kvs" and keys: "fst ` set kvs = fst ` set l"
    using expect_fields_Inr [OF names(1)] names(2) by auto
  have "map_of kvs k = map_of (fold (\<lambda>(k, v). obj_insert k v) l []) k" for k
  proof (cases "k \<in> fst ` set l")
    case True
    then obtain w where w: "(k, w) \<in> set l" by auto
    then have "c_field v k = Inr w" using fields by (auto simp: list_all_iff)
    then have "map_of kvs k = Some w"
      by (simp add: v c_field_def as_object_def split: option.splits)
    moreover have "distinct (map fst (rev l))" using dist by (metis distinct_rev rev_map)
    then have "map_of (rev l) k = Some w" using w by simp
    ultimately show ?thesis by (simp add: map_of_obj_fold)
  next
    case False
    moreover from False have "map_of (rev l) k = None" by (simp add: map_of_eq_None_iff)
    moreover from False have "map_of kvs k = None" by (simp add: map_of_eq_None_iff keys)
    ultimately show ?thesis by (simp add: map_of_obj_fold)
  qed
  then have "map_of kvs = map_of (fold (\<lambda>(k, v). obj_insert k v) l [])" by blast
  then show ?thesis
    using wf obj_fold_sorted [of "[]" l] unfolding v c_obj_def by (simp add: sorted_map_of_eq)
qed

context exact_canonical
begin

lemma field_exact: "field_as v k from_canon = Inr x \<Longrightarrow> canon_wf v \<Longrightarrow> c_field v k = Inr (to_canon x)"
  unfolding field_as_def rbind_eq_Inr_iff by (metis c_field_wf exact)

end

end
