(* ===== verification/Ids.thy ===== *)
theory Ids
  imports Codec "HOL-Library.Product_Lexorder"
begin

text \<open>
  The identity taxonomy of \<^verbatim>\<open>ids.rs\<close> and the hashes of \<^verbatim>\<open>hash.rs\<close>: 128-bit identities, 64-bit epochs,
  256-bit digests, the transaction identity and the composite references, with their canonical codecs.
\<close>

section \<open>Scalar identities\<close>

text \<open>\<open>[u8; 16]\<close> and \<open>[u8; 32]\<close> newtypes are byte lists of that length; generations and epochs are 64-bit words.\<close>

type_synonym id128 = bytes
type_synonym epoch64 = u64
type_synonym hash256 = bytes

definition id128_valid :: "id128 \<Rightarrow> bool" where
  "id128_valid x \<longleftrightarrow> length x = 16"

definition id128_nil :: id128 where
  "id128_nil = replicate 16 0"

definition id128_from_u128 :: "128 word \<Rightarrow> id128" where
  "id128_from_u128 v = be_bytes 16 (unat v)"

definition id128_as_u128 :: "id128 \<Rightarrow> 128 word" where
  "id128_as_u128 x = of_nat (be_value x)"

definition id128_from_hex :: "string \<Rightarrow> id128 core_result" where
  "id128_from_hex s = rbind (hex_decode s)
     (\<lambda>b. if length b \<noteq> 16 then Inl NonCanonicalEncoding else Inr b)"

definition id128_to_canon :: "id128 \<Rightarrow> canon" where
  "id128_to_canon x = CStr (hex_encode x)"

definition id128_from_canon :: "canon \<Rightarrow> id128 core_result" where
  "id128_from_canon v = rbind (as_str v) id128_from_hex"

definition checked_next :: "epoch64 \<Rightarrow> epoch64 core_result" where
  "checked_next e = (if unat e + 1 < 2 ^ 64 then Inr (e + 1) else Inl NumericOverflow)"

definition epoch_to_canon :: "epoch64 \<Rightarrow> canon" where
  "epoch_to_canon e = c_uint e"

definition epoch_from_canon :: "canon \<Rightarrow> epoch64 core_result" where
  "epoch_from_canon v = rbind (as_u64 v) Inr"

section \<open>Digests\<close>

definition hash256_valid :: "hash256 \<Rightarrow> bool" where
  "hash256_valid h \<longleftrightarrow> length h = 32"

definition hash256_zero :: hash256 where
  "hash256_zero = replicate 32 0"

definition hash256_from_hex :: "string \<Rightarrow> hash256 core_result" where
  "hash256_from_hex s = rbind (hex_decode s)
     (\<lambda>b. if length b \<noteq> 32 then Inl NonCanonicalEncoding else Inr b)"

definition hash256_to_canon :: "hash256 \<Rightarrow> canon" where
  "hash256_to_canon h = CStr (hex_encode h)"

definition hash256_from_canon :: "canon \<Rightarrow> hash256 core_result" where
  "hash256_from_canon v = rbind (as_str v) hash256_from_hex"

text \<open>SHA-256 is a parameter: \<open>sha\<close> maps the bytes fed to the hasher to the 32-byte digest.\<close>

definition domain_hash :: "(bytes \<Rightarrow> hash256) \<Rightarrow> string \<Rightarrow> bytes \<Rightarrow> hash256" where
  "domain_hash sha domain payload = sha (to_bytes domain @ [0] @ payload)"

definition id128_derive :: "(bytes \<Rightarrow> hash256) \<Rightarrow> string \<Rightarrow> string \<Rightarrow> id128" where
  "id128_derive sha name label = take 16 (domain_hash sha (''astra.id.'' @ name) (to_bytes label))"

section \<open>Transaction identity\<close>

type_synonym txn_id = bytes

definition txn_id_valid :: "txn_id \<Rightarrow> bool" where
  "txn_id_valid t \<longleftrightarrow> length t = 32"

definition txn_id_new :: "id128 \<Rightarrow> epoch64 \<Rightarrow> epoch64 \<Rightarrow> txn_id" where
  "txn_id_new home epoch seq = home @ u64_be epoch @ u64_be seq"

definition txn_home :: "txn_id \<Rightarrow> id128" where
  "txn_home t = take 16 t"

definition txn_epoch :: "txn_id \<Rightarrow> epoch64" where
  "txn_epoch t = of_nat (be_value (take 8 (drop 16 t)))"

definition txn_seq :: "txn_id \<Rightarrow> epoch64" where
  "txn_seq t = of_nat (be_value (take 8 (drop 24 t)))"

definition txn_id_from_hex :: "string \<Rightarrow> txn_id core_result" where
  "txn_id_from_hex s = rbind (hex_decode s)
     (\<lambda>b. if length b \<noteq> 32 then Inl NonCanonicalEncoding else Inr b)"

definition txn_id_to_canon :: "txn_id \<Rightarrow> canon" where
  "txn_id_to_canon t = CStr (hex_encode t)"

definition txn_id_from_canon :: "canon \<Rightarrow> txn_id core_result" where
  "txn_id_from_canon v = rbind (as_str v) txn_id_from_hex"

lemmas hex_id_defs =
  id128_to_canon_def id128_from_canon_def id128_from_hex_def id128_valid_def
  hash256_to_canon_def hash256_from_canon_def hash256_from_hex_def hash256_valid_def
  txn_id_to_canon_def txn_id_from_canon_def txn_id_from_hex_def txn_id_valid_def

interpretation c_id128: exact_canonical id128_to_canon id128_from_canon id128_valid
  by unfold_locales
    (auto simp: hex_id_defs as_str_def hex_decode_encode is_ascii_utf8 rbind_eq_Inr_iff
      split: if_splits canon.splits dest: hex_decode_exact)

interpretation c_epoch: exact_canonical epoch_to_canon epoch_from_canon "\<lambda>_. True"
  by unfold_locales
    (simp_all add: epoch_to_canon_def epoch_from_canon_def c_u64.from_to c_u64.to_canon_wf
      c_u64.to_canon_not_null rbind_eq_Inr_iff c_u64.exact)

interpretation c_hash256: exact_canonical hash256_to_canon hash256_from_canon hash256_valid
  by unfold_locales
    (auto simp: hex_id_defs as_str_def hex_decode_encode is_ascii_utf8 rbind_eq_Inr_iff
      split: if_splits canon.splits dest: hex_decode_exact)

interpretation c_txn_id: exact_canonical txn_id_to_canon txn_id_from_canon txn_id_valid
  by unfold_locales
    (auto simp: hex_id_defs as_str_def hex_decode_encode is_ascii_utf8 rbind_eq_Inr_iff
      split: if_splits canon.splits dest: hex_decode_exact)

lemmas scalar_codecs =
  c_id128.from_to c_id128.to_canon_wf c_epoch.from_to c_epoch.to_canon_wf
  c_hash256.from_to c_hash256.to_canon_wf c_txn_id.from_to c_txn_id.to_canon_wf
  c_string.from_to c_string.to_canon_wf c_boolean.from_to c_boolean.to_canon_wf
  c_hex.from_to c_hex.to_canon_wf c_u64.from_to c_u64.to_canon_wf
  c_u32n.from_to c_u32n.to_canon_wf c_i64.from_to c_i64.to_canon_wf

lemmas scalar_valid =
  c_id128.from_valid c_hash256.from_valid c_txn_id.from_valid c_string.from_valid

lemmas scalar_exact =
  c_id128.field_exact c_epoch.field_exact c_hash256.field_exact c_txn_id.field_exact
  c_string.field_exact c_u64.field_exact c_u32n.field_exact c_hex.field_exact c_boolean.field_exact

section \<open>Composite references\<close>

record request_key =
  rk_tenant_id :: id128
  rk_request_namespace :: id128
  rk_stable_request_id :: id128

definition request_key_valid :: "request_key \<Rightarrow> bool" where
  "request_key_valid k \<longleftrightarrow>
     id128_valid (rk_tenant_id k) \<and> id128_valid (rk_request_namespace k) \<and>
     id128_valid (rk_stable_request_id k)"

definition request_key_to_canon :: "request_key \<Rightarrow> canon" where
  "request_key_to_canon k =
     c_obj [(''request_namespace'', id128_to_canon (rk_request_namespace k)),
            (''stable_request_id'', id128_to_canon (rk_stable_request_id k)),
            (''tenant_id'', id128_to_canon (rk_tenant_id k))]"

definition request_key_from_canon :: "canon \<Rightarrow> request_key core_result" where
  "request_key_from_canon v =
     rbind (expect_fields v [''request_namespace'', ''stable_request_id'', ''tenant_id'']) (\<lambda>_.
     rbind (field_as v ''tenant_id'' id128_from_canon) (\<lambda>tenant.
     rbind (field_as v ''request_namespace'' id128_from_canon) (\<lambda>ns.
     rbind (field_as v ''stable_request_id'' id128_from_canon) (\<lambda>rid.
     Inr \<lparr>rk_tenant_id = tenant, rk_request_namespace = ns, rk_stable_request_id = rid\<rparr>))))"

interpretation c_request_key: canonical request_key_to_canon request_key_from_canon request_key_valid
  by unfold_locales
    (auto simp: request_key_to_canon_def request_key_from_canon_def request_key_valid_def scalar_codecs
      rbind_eq_Inr_iff elim!: field_as_InrE intro: scalar_valid)

record operation_ref =
  or_operation_id :: u64
  or_version :: u32

definition operation_ref_to_canon :: "operation_ref \<Rightarrow> canon" where
  "operation_ref_to_canon r =
     c_obj [(''operation_id'', epoch_to_canon (or_operation_id r)), (''version'', c_u32 (or_version r))]"

definition operation_ref_from_canon :: "canon \<Rightarrow> operation_ref core_result" where
  "operation_ref_from_canon v =
     rbind (expect_fields v [''operation_id'', ''version'']) (\<lambda>_.
     rbind (field_as v ''operation_id'' epoch_from_canon) (\<lambda>oid.
     rbind (field_as v ''version'' as_u32) (\<lambda>ver.
     Inr \<lparr>or_operation_id = oid, or_version = ver\<rparr>)))"

interpretation c_operation_ref: canonical operation_ref_to_canon operation_ref_from_canon "\<lambda>_. True"
  by unfold_locales
    (auto simp: operation_ref_to_canon_def operation_ref_from_canon_def scalar_codecs)

record idc_binding =
  ib_idc_id :: id128
  ib_idc_generation :: epoch64
  ib_authority_epoch :: epoch64

definition idc_binding_valid :: "idc_binding \<Rightarrow> bool" where
  "idc_binding_valid b \<longleftrightarrow> id128_valid (ib_idc_id b)"

definition idc_binding_to_canon :: "idc_binding \<Rightarrow> canon" where
  "idc_binding_to_canon b =
     c_obj [(''authority_epoch'', epoch_to_canon (ib_authority_epoch b)),
            (''idc_generation'', epoch_to_canon (ib_idc_generation b)),
            (''idc_id'', id128_to_canon (ib_idc_id b))]"

definition idc_binding_from_canon :: "canon \<Rightarrow> idc_binding core_result" where
  "idc_binding_from_canon v =
     rbind (expect_fields v [''authority_epoch'', ''idc_generation'', ''idc_id'']) (\<lambda>_.
     rbind (field_as v ''idc_id'' id128_from_canon) (\<lambda>idc.
     rbind (field_as v ''idc_generation'' epoch_from_canon) (\<lambda>gen.
     rbind (field_as v ''authority_epoch'' epoch_from_canon) (\<lambda>epoch.
     Inr \<lparr>ib_idc_id = idc, ib_idc_generation = gen, ib_authority_epoch = epoch\<rparr>))))"

interpretation c_idc_binding: exact_canonical idc_binding_to_canon idc_binding_from_canon idc_binding_valid
proof unfold_locales
  fix v b assume "canon_wf v" "idc_binding_from_canon v = Inr b"
  then show "v = idc_binding_to_canon b"
    unfolding idc_binding_to_canon_def idc_binding_from_canon_def
    by (auto simp: rbind_eq_Inr_iff intro!: obj_exactI dest: scalar_exact)
qed (auto simp: idc_binding_to_canon_def idc_binding_from_canon_def idc_binding_valid_def scalar_codecs
      rbind_eq_Inr_iff elim!: field_as_InrE intro: scalar_valid)

text \<open>The derived \<open>Ord\<close> compares the fields in the order of their declaration.\<close>

definition idc_binding_key :: "idc_binding \<Rightarrow> bytes \<times> epoch64 \<times> epoch64" where
  "idc_binding_key b = (ib_idc_id b, ib_idc_generation b, ib_authority_epoch b)"

record plan_ref =
  pr_plan_id :: id128
  pr_generation :: epoch64
  pr_hash :: hash256

definition plan_ref_valid :: "plan_ref \<Rightarrow> bool" where
  "plan_ref_valid r \<longleftrightarrow> id128_valid (pr_plan_id r) \<and> hash256_valid (pr_hash r)"

definition plan_ref_to_canon :: "plan_ref \<Rightarrow> canon" where
  "plan_ref_to_canon r =
     c_obj [(''generation'', epoch_to_canon (pr_generation r)), (''hash'', hash256_to_canon (pr_hash r)),
            (''plan_id'', id128_to_canon (pr_plan_id r))]"

definition plan_ref_from_canon :: "canon \<Rightarrow> plan_ref core_result" where
  "plan_ref_from_canon v =
     rbind (expect_fields v [''generation'', ''hash'', ''plan_id'']) (\<lambda>_.
     rbind (field_as v ''plan_id'' id128_from_canon) (\<lambda>plan.
     rbind (field_as v ''generation'' epoch_from_canon) (\<lambda>gen.
     rbind (field_as v ''hash'' hash256_from_canon) (\<lambda>h.
     Inr \<lparr>pr_plan_id = plan, pr_generation = gen, pr_hash = h\<rparr>))))"

interpretation c_plan_ref: canonical plan_ref_to_canon plan_ref_from_canon plan_ref_valid
  by unfold_locales
    (auto simp: plan_ref_to_canon_def plan_ref_from_canon_def plan_ref_valid_def scalar_codecs
      rbind_eq_Inr_iff elim!: field_as_InrE intro: scalar_valid)

record origin_id =
  oi_node_id :: id128
  oi_origin_epoch :: epoch64
  oi_origin_seq :: epoch64

definition origin_id_valid :: "origin_id \<Rightarrow> bool" where
  "origin_id_valid r \<longleftrightarrow> id128_valid (oi_node_id r)"

definition origin_id_to_canon :: "origin_id \<Rightarrow> canon" where
  "origin_id_to_canon r =
     c_obj [(''node_id'', id128_to_canon (oi_node_id r)),
            (''origin_epoch'', epoch_to_canon (oi_origin_epoch r)),
            (''origin_seq'', epoch_to_canon (oi_origin_seq r))]"

definition origin_id_from_canon :: "canon \<Rightarrow> origin_id core_result" where
  "origin_id_from_canon v =
     rbind (expect_fields v [''node_id'', ''origin_epoch'', ''origin_seq'']) (\<lambda>_.
     rbind (field_as v ''node_id'' id128_from_canon) (\<lambda>node.
     rbind (field_as v ''origin_epoch'' epoch_from_canon) (\<lambda>epoch.
     rbind (field_as v ''origin_seq'' epoch_from_canon) (\<lambda>seq.
     Inr \<lparr>oi_node_id = node, oi_origin_epoch = epoch, oi_origin_seq = seq\<rparr>))))"

interpretation c_origin_id: exact_canonical origin_id_to_canon origin_id_from_canon origin_id_valid
proof unfold_locales
  fix v b assume "canon_wf v" "origin_id_from_canon v = Inr b"
  then show "v = origin_id_to_canon b"
    unfolding origin_id_to_canon_def origin_id_from_canon_def
    by (auto simp: rbind_eq_Inr_iff intro!: obj_exactI dest: scalar_exact)
qed (auto simp: origin_id_to_canon_def origin_id_from_canon_def origin_id_valid_def scalar_codecs
      rbind_eq_Inr_iff elim!: field_as_InrE intro: scalar_valid)

definition origin_id_key :: "origin_id \<Rightarrow> bytes \<times> epoch64 \<times> epoch64" where
  "origin_id_key b = (oi_node_id b, oi_origin_epoch b, oi_origin_seq b)"

record resource_ref =
  rr_invariant_id :: u64
  rr_resource_key :: bytes
  rr_resource_generation :: epoch64

definition resource_ref_to_canon :: "resource_ref \<Rightarrow> canon" where
  "resource_ref_to_canon r =
     c_obj [(''invariant_id'', epoch_to_canon (rr_invariant_id r)),
            (''resource_generation'', epoch_to_canon (rr_resource_generation r)),
            (''resource_key'', c_bytes (rr_resource_key r))]"

definition resource_ref_from_canon :: "canon \<Rightarrow> resource_ref core_result" where
  "resource_ref_from_canon v =
     rbind (expect_fields v [''invariant_id'', ''resource_generation'', ''resource_key'']) (\<lambda>_.
     rbind (field_as v ''invariant_id'' epoch_from_canon) (\<lambda>inv.
     rbind (field_as v ''resource_key'' as_bytes) (\<lambda>key.
     rbind (field_as v ''resource_generation'' epoch_from_canon) (\<lambda>gen.
     Inr \<lparr>rr_invariant_id = inv, rr_resource_key = key, rr_resource_generation = gen\<rparr>))))"

interpretation c_resource_ref: canonical resource_ref_to_canon resource_ref_from_canon "\<lambda>_. True"
  by unfold_locales
    (auto simp: resource_ref_to_canon_def resource_ref_from_canon_def scalar_codecs)

record holder_ref =
  hr_holder_id :: id128
  hr_authority_epoch :: epoch64

definition holder_ref_valid :: "holder_ref \<Rightarrow> bool" where
  "holder_ref_valid r \<longleftrightarrow> id128_valid (hr_holder_id r)"

definition holder_ref_to_canon :: "holder_ref \<Rightarrow> canon" where
  "holder_ref_to_canon r =
     c_obj [(''authority_epoch'', epoch_to_canon (hr_authority_epoch r)),
            (''holder_id'', id128_to_canon (hr_holder_id r))]"

definition holder_ref_from_canon :: "canon \<Rightarrow> holder_ref core_result" where
  "holder_ref_from_canon v =
     rbind (expect_fields v [''authority_epoch'', ''holder_id'']) (\<lambda>_.
     rbind (field_as v ''holder_id'' id128_from_canon) (\<lambda>holder.
     rbind (field_as v ''authority_epoch'' epoch_from_canon) (\<lambda>epoch.
     Inr \<lparr>hr_holder_id = holder, hr_authority_epoch = epoch\<rparr>)))"

interpretation c_holder_ref: canonical holder_ref_to_canon holder_ref_from_canon holder_ref_valid
  by unfold_locales
    (auto simp: holder_ref_to_canon_def holder_ref_from_canon_def holder_ref_valid_def scalar_codecs
      rbind_eq_Inr_iff elim!: field_as_InrE intro: scalar_valid)

datatype authority_binding =
    AuthIdc id128 idc_binding
  | AuthHolder resource_ref epoch64 id128 epoch64
  | AuthRequestHome id128 epoch64

fun authority_binding_valid :: "authority_binding \<Rightarrow> bool" where
  "authority_binding_valid (AuthIdc authority idc) \<longleftrightarrow> id128_valid authority \<and> idc_binding_valid idc"
| "authority_binding_valid (AuthHolder res escrow holder epoch) \<longleftrightarrow> id128_valid holder"
| "authority_binding_valid (AuthRequestHome home epoch) \<longleftrightarrow> id128_valid home"

fun authority_binding_to_canon :: "authority_binding \<Rightarrow> canon" where
  "authority_binding_to_canon (AuthIdc authority idc) =
     c_obj [(''authority_id'', id128_to_canon authority), (''idc'', idc_binding_to_canon idc),
            (''kind'', CStr ''idc'')]"
| "authority_binding_to_canon (AuthHolder res escrow holder epoch) =
     c_obj [(''epoch'', epoch_to_canon epoch), (''escrow_epoch'', epoch_to_canon escrow),
            (''holder_id'', id128_to_canon holder), (''kind'', CStr ''holder''),
            (''resource'', resource_ref_to_canon res)]"
| "authority_binding_to_canon (AuthRequestHome home epoch) =
     c_obj [(''epoch'', epoch_to_canon epoch), (''home_id'', id128_to_canon home),
            (''kind'', CStr ''request_home'')]"

definition authority_binding_from_canon :: "canon \<Rightarrow> authority_binding core_result" where
  "authority_binding_from_canon v =
     rbind (field_as v ''kind'' as_str) (\<lambda>kind.
       if kind = ''idc'' then
         rbind (expect_fields v [''authority_id'', ''idc'', ''kind'']) (\<lambda>_.
         rbind (field_as v ''authority_id'' id128_from_canon) (\<lambda>authority.
         rbind (field_as v ''idc'' idc_binding_from_canon) (\<lambda>idc.
         Inr (AuthIdc authority idc))))
       else if kind = ''holder'' then
         rbind (expect_fields v [''epoch'', ''escrow_epoch'', ''holder_id'', ''kind'', ''resource'']) (\<lambda>_.
         rbind (field_as v ''resource'' resource_ref_from_canon) (\<lambda>res.
         rbind (field_as v ''escrow_epoch'' epoch_from_canon) (\<lambda>escrow.
         rbind (field_as v ''holder_id'' id128_from_canon) (\<lambda>holder.
         rbind (field_as v ''epoch'' epoch_from_canon) (\<lambda>epoch.
         Inr (AuthHolder res escrow holder epoch))))))
       else if kind = ''request_home'' then
         rbind (expect_fields v [''epoch'', ''home_id'', ''kind'']) (\<lambda>_.
         rbind (field_as v ''home_id'' id128_from_canon) (\<lambda>home.
         rbind (field_as v ''epoch'' epoch_from_canon) (\<lambda>epoch.
         Inr (AuthRequestHome home epoch))))
       else Inl NonCanonicalEncoding)"

lemmas composite_codecs =
  c_idc_binding.from_to c_idc_binding.to_canon_wf c_resource_ref.from_to c_resource_ref.to_canon_wf
  c_request_key.from_to c_request_key.to_canon_wf c_operation_ref.from_to c_operation_ref.to_canon_wf
  c_plan_ref.from_to c_plan_ref.to_canon_wf c_origin_id.from_to c_origin_id.to_canon_wf
  c_holder_ref.from_to c_holder_ref.to_canon_wf

lemmas composite_valid =
  c_idc_binding.from_valid c_request_key.from_valid c_plan_ref.from_valid c_origin_id.from_valid
  c_holder_ref.from_valid

lemma ascii_lit: "utf8_valid ''idc''" "utf8_valid ''holder''" "utf8_valid ''request_home''"
  by (rule is_ascii_utf8, simp)+

lemma as_str_CStr [simp]: "as_str (CStr s) = Inr s"
  by (simp add: as_str_def)

interpretation c_authority: canonical authority_binding_to_canon authority_binding_from_canon
  authority_binding_valid
proof unfold_locales
  fix x assume "authority_binding_valid x"
  then show "authority_binding_from_canon (authority_binding_to_canon x) = Inr x"
    and "canon_wf (authority_binding_to_canon x)" and "authority_binding_to_canon x \<noteq> CNull"
    by (cases x; simp add: authority_binding_from_canon_def scalar_codecs composite_codecs ascii_lit)+
next
  fix v x assume "canon_wf v" "authority_binding_from_canon v = Inr x"
  then show "authority_binding_valid x"
    by (auto simp: authority_binding_from_canon_def rbind_eq_Inr_iff split: if_splits
        elim!: field_as_InrE intro: scalar_valid composite_valid)
qed

record protocol_record_ref =
  prr_record_kind :: string
  prr_record_version :: u32
  prr_record_key :: bytes
  prr_payload_hash :: hash256

definition protocol_record_ref_valid :: "protocol_record_ref \<Rightarrow> bool" where
  "protocol_record_ref_valid r \<longleftrightarrow> utf8_valid (prr_record_kind r) \<and> hash256_valid (prr_payload_hash r)"

definition protocol_record_ref_to_canon :: "protocol_record_ref \<Rightarrow> canon" where
  "protocol_record_ref_to_canon r =
     c_obj [(''payload_hash'', CStr (hex_encode (prr_payload_hash r))),
            (''record_key'', c_bytes (prr_record_key r)), (''record_kind'', CStr (prr_record_kind r)),
            (''record_version'', c_u32 (prr_record_version r))]"

definition protocol_record_ref_from_canon :: "canon \<Rightarrow> protocol_record_ref core_result" where
  "protocol_record_ref_from_canon v =
     rbind (expect_fields v [''payload_hash'', ''record_key'', ''record_kind'', ''record_version'']) (\<lambda>_.
     rbind (field_as v ''record_kind'' as_str) (\<lambda>kind.
     rbind (field_as v ''record_version'' as_u32) (\<lambda>ver.
     rbind (field_as v ''record_key'' as_bytes) (\<lambda>key.
     rbind (field_as v ''payload_hash'' (\<lambda>f. rbind (as_str f) hash256_from_hex)) (\<lambda>h.
     Inr \<lparr>prr_record_kind = kind, prr_record_version = ver, prr_record_key = key,
          prr_payload_hash = h\<rparr>)))))"

interpretation c_protocol_record_ref: exact_canonical protocol_record_ref_to_canon
  protocol_record_ref_from_canon protocol_record_ref_valid
proof unfold_locales
  fix v b assume "canon_wf v" "protocol_record_ref_from_canon v = Inr b"
  then show "v = protocol_record_ref_to_canon b"
    unfolding protocol_record_ref_to_canon_def protocol_record_ref_from_canon_def
      hash256_to_canon_def [symmetric] hash256_from_canon_def [symmetric]
    by (auto simp: rbind_eq_Inr_iff intro!: obj_exactI dest: scalar_exact)
qed (auto simp: protocol_record_ref_to_canon_def protocol_record_ref_from_canon_def
      protocol_record_ref_valid_def scalar_codecs
      rbind_eq_Inr_iff elim!: field_as_InrE intro: scalar_valid
      simp flip: hash256_to_canon_def hash256_from_canon_def)

definition protocol_record_ref_key :: "protocol_record_ref \<Rightarrow> bytes \<times> u32 \<times> bytes \<times> bytes" where
  "protocol_record_ref_key r =
     (to_bytes (prr_record_kind r), prr_record_version r, prr_record_key r, prr_payload_hash r)"

lemma ref_keys_inj [simp]:
  "inj_on idc_binding_key A" "inj_on origin_id_key B" "inj_on protocol_record_ref_key C"
  by (auto simp: inj_on_def idc_binding_key_def origin_id_key_def protocol_record_ref_key_def)

datatype consistency_class =
  C0Local | C1Commutative | C2Causal | C3Escrow | C4Certified | C5Serial

fun class_label :: "consistency_class \<Rightarrow> string" where
  "class_label C0Local = ''C0_LOCAL''"
| "class_label C1Commutative = ''C1_COMMUTATIVE''"
| "class_label C2Causal = ''C2_CAUSAL''"
| "class_label C3Escrow = ''C3_ESCROW''"
| "class_label C4Certified = ''C4_CERTIFIED''"
| "class_label C5Serial = ''C5_SERIAL''"

definition class_from_label :: "string \<Rightarrow> consistency_class core_result" where
  "class_from_label s =
     (if s = ''C0_LOCAL'' then Inr C0Local
      else if s = ''C1_COMMUTATIVE'' then Inr C1Commutative
      else if s = ''C2_CAUSAL'' then Inr C2Causal
      else if s = ''C3_ESCROW'' then Inr C3Escrow
      else if s = ''C4_CERTIFIED'' then Inr C4Certified
      else if s = ''C5_SERIAL'' then Inr C5Serial
      else Inl NonCanonicalEncoding)"

definition class_to_canon :: "consistency_class \<Rightarrow> canon" where
  "class_to_canon c = CStr (class_label c)"

definition class_from_canon :: "canon \<Rightarrow> consistency_class core_result" where
  "class_from_canon v = rbind (as_str v) class_from_label"

lemma is_ascii_class_label [simp]: "is_ascii (class_label c)"
  by (cases c) simp_all

interpretation c_class: canonical class_to_canon class_from_canon "\<lambda>_. True"
proof unfold_locales
  show "class_from_canon (class_to_canon c) = Inr c" for c
    by (cases c) (simp_all add: class_to_canon_def class_from_canon_def class_from_label_def)
qed (simp_all add: class_to_canon_def is_ascii_utf8)

section \<open>Rules for the codecs of composite records\<close>

lemmas field_rules [codec_simps] =
  c_id128.from_to c_epoch.from_to c_hash256.from_to c_txn_id.from_to c_string.from_to
  c_u64.from_to c_u32n.from_to c_hex.from_to c_boolean.from_to c_i64.from_to
  c_request_key.from_to c_operation_ref.from_to c_idc_binding.from_to c_plan_ref.from_to
  c_origin_id.from_to c_resource_ref.from_to c_holder_ref.from_to c_authority.from_to
  c_protocol_record_ref.from_to c_class.from_to c_id128.to_canon_wf c_epoch.to_canon_wf
  c_hash256.to_canon_wf c_txn_id.to_canon_wf c_string.to_canon_wf c_u64.to_canon_wf
  c_u32n.to_canon_wf c_hex.to_canon_wf c_boolean.to_canon_wf c_i64.to_canon_wf
  c_request_key.to_canon_wf c_operation_ref.to_canon_wf c_idc_binding.to_canon_wf
  c_plan_ref.to_canon_wf c_origin_id.to_canon_wf c_resource_ref.to_canon_wf
  c_holder_ref.to_canon_wf c_authority.to_canon_wf c_protocol_record_ref.to_canon_wf
  c_class.to_canon_wf

lemmas option_rules [codec_simps] =
  c_id128.option_round_trip c_epoch.option_round_trip c_hash256.option_round_trip
  c_txn_id.option_round_trip c_string.option_round_trip c_u64.option_round_trip
  c_u32n.option_round_trip c_hex.option_round_trip c_boolean.option_round_trip
  c_i64.option_round_trip c_request_key.option_round_trip c_operation_ref.option_round_trip
  c_idc_binding.option_round_trip c_plan_ref.option_round_trip c_origin_id.option_round_trip
  c_resource_ref.option_round_trip c_holder_ref.option_round_trip c_authority.option_round_trip
  c_protocol_record_ref.option_round_trip c_class.option_round_trip c_id128.option_wf
  c_epoch.option_wf c_hash256.option_wf c_txn_id.option_wf c_string.option_wf c_u64.option_wf
  c_u32n.option_wf c_hex.option_wf c_boolean.option_wf c_i64.option_wf c_request_key.option_wf
  c_operation_ref.option_wf c_idc_binding.option_wf c_plan_ref.option_wf c_origin_id.option_wf
  c_resource_ref.option_wf c_holder_ref.option_wf c_authority.option_wf
  c_protocol_record_ref.option_wf c_class.option_wf

lemmas set_rules [codec_simps] =
  c_id128.set_from_to(1) c_epoch.set_from_to(1) c_string.set_from_to(1) c_u64.set_from_to(1)
  c_idc_binding.set_from_to(1) c_origin_id.set_from_to(1) c_protocol_record_ref.set_from_to(1)
  c_id128.set_from_to(2) [where key = "\<lambda>x. x"]
  c_epoch.set_from_to(2) [where key = "\<lambda>x. x"]
  c_string.set_from_to(2) [where key = "\<lambda>x. x"]
  c_u64.set_from_to(2) [where key = "\<lambda>x. x"]
  c_idc_binding.set_from_to(2) [where key = idc_binding_key]
  c_origin_id.set_from_to(2) [where key = origin_id_key]
  c_protocol_record_ref.set_from_to(2) [where key = protocol_record_ref_key]

lemma inj_on_self [simp]: "inj_on (\<lambda>x. x) A"
  by (simp add: inj_on_def)

lemmas valid_rules [codec_valid] =
  c_id128.from_valid c_hash256.from_valid c_txn_id.from_valid c_string.from_valid
  c_request_key.from_valid c_idc_binding.from_valid c_plan_ref.from_valid c_origin_id.from_valid
  c_holder_ref.from_valid c_authority.from_valid c_protocol_record_ref.from_valid
  c_id128.option_valid c_hash256.option_valid c_txn_id.option_valid c_string.option_valid
  c_request_key.option_valid c_idc_binding.option_valid c_plan_ref.option_valid
  c_origin_id.option_valid c_holder_ref.option_valid c_authority.option_valid
  c_protocol_record_ref.option_valid

lemmas set_valid_rules [codec_valid] =
  c_id128.set_valid [OF _ _ inj_on_self] c_epoch.set_valid [OF _ _ inj_on_self]
  c_string.set_valid [OF _ _ inj_on_self] c_u64.set_valid [OF _ _ inj_on_self]
  c_idc_binding.set_valid [OF _ _ ref_keys_inj(1)] c_origin_id.set_valid [OF _ _ ref_keys_inj(2)]
  c_protocol_record_ref.set_valid [OF _ _ ref_keys_inj(3)]

lemma canon_id_rules [codec_simps, simp]: "canon_id_from v = Inr v"
  by (simp add: canon_id_from_def)

lemma canon_id_valid [codec_valid]: "canon_wf v \<Longrightarrow> canon_id_from v = Inr x \<Longrightarrow> canon_wf x"
  by simp

section \<open>Properties\<close>

lemma u64_be_parts:
  assumes "length h = 16"
  shows "take 8 (drop 16 (h @ u64_be e @ u64_be q)) = u64_be e"
    and "take 8 (drop 24 (h @ u64_be e @ u64_be q)) = u64_be q"
  using assms by simp_all

text \<open>
  C22: transaction identities: \<open>TxnId::new\<close> is a 32-byte layout from which the home, the epoch and the
  sequence are read back exactly, every 32-byte value is the layout of its own parts, and the byte
  order of two identities of one home is the order of epoch, then sequence.
\<close>

theorem txn_id_layout:
  assumes "length h = 16" "length t = 32"
  shows "txn_id_valid (txn_id_new h e q) \<and> txn_home (txn_id_new h e q) = h \<and>
     txn_epoch (txn_id_new h e q) = e \<and> txn_seq (txn_id_new h e q) = q \<and>
     txn_id_new (txn_home t) (txn_epoch t) (txn_seq t) = t \<and>
     (txn_id_new h e q < txn_id_new h e' q' \<longleftrightarrow> e < e' \<or> e = e' \<and> q < q')"
proof -
  have less: "u64_be a < u64_be b \<longleftrightarrow> a < b" "u64_be a = u64_be b \<longleftrightarrow> a = b" for a b
    by (simp_all only: u64_be_def be_bytes_less be_bytes_inject unat_bounds
        word_less_nat_alt [symmetric] word_unat_eq_iff [symmetric])
  have word: "u64_be (of_nat (be_value b)) = b" if "length b = 8" for b
  proof -
    have "unat (of_nat (be_value b) :: u64) = be_value b"
      using be_value_bound [of b] that by (simp add: unat_of_nat)
    then show ?thesis using be_bytes_be_value [of b] that by (simp add: u64_be_def)
  qed
  have "txn_id_new (txn_home t) (txn_epoch t) (txn_seq t) = take 16 t @ take 8 (drop 16 t) @ take 8 (drop 24 t)"
    unfolding txn_id_new_def txn_home_def txn_epoch_def txn_seq_def using assms(2) by (simp add: word)
  also have "\<dots> = take (16 + (8 + 8)) t" by (simp only: take_add drop_drop) simp
  finally have "txn_id_new (txn_home t) (txn_epoch t) (txn_seq t) = t" using assms(2) by simp
  with assms(1) show ?thesis
    by (simp add: txn_id_valid_def txn_id_new_def txn_home_def txn_epoch_def txn_seq_def u64_be_parts
        append_less_append less)
qed

theorem txn_id_layout_witness:
  "txn_id_new (replicate 16 1) 2 7 < txn_id_new (replicate 16 1) 2 9 \<and>
   txn_seq (txn_id_new (replicate 16 1) 2 7) = 7"
  using txn_id_layout [of "replicate 16 1" "replicate 32 0" 2 7 2 9] by simp


lemma zero_free_prefix:
  "0 \<notin> set a \<Longrightarrow> 0 \<notin> set b \<Longrightarrow> a @ 0 # p = b @ 0 # q \<longleftrightarrow> a = b \<and> p = (q :: u8 list)"
  by (induction a b rule: list_induct2') auto

text \<open>
  C24: domain separation: for two hash domains that contain no NUL character (NUL is the separator of the
  preimage, and no domain constant of the sources contains one), equal \<open>domain_hash\<close> values of different
  (domain, payload) pairs are a collision of SHA-256 itself: the two preimages differ and hash alike.
\<close>

theorem domain_hash_separates:
  assumes "CHR 0x00 \<notin> set d" "CHR 0x00 \<notin> set d'" "(d, p) \<noteq> (d', p')"
    and "domain_hash sha d p = domain_hash sha d' p'"
  shows "to_bytes d @ [0] @ p \<noteq> to_bytes d' @ [0] @ p' \<and>
     sha (to_bytes d @ [0] @ p) = sha (to_bytes d' @ [0] @ p')"
proof -
  have "0 \<notin> set (to_bytes s)" if "CHR 0x00 \<notin> set s" for s
  proof
    assume "0 \<in> set (to_bytes s)"
    then obtain c where c: "c \<in> set s" "(of_nat (of_char c) :: u8) = 0" by (auto simp: to_bytes_def)
    then have "(of_char c :: nat) = 0" using of_char_u8 [of c] by simp
    then have "c = char_of (0 :: nat)" by (metis char_of_char)
    with c(1) that show False by (simp add: char_of_def)
  qed
  then have "to_bytes d @ 0 # p \<noteq> to_bytes d' @ 0 # p'"
    using assms zero_free_prefix [of "to_bytes d" "to_bytes d'" p p'] by auto
  with assms(4) show ?thesis unfolding domain_hash_def by simp
qed

theorem domain_hash_separates_witness:
  "domain_hash (\<lambda>_. replicate 32 0) ''a'' [1] = domain_hash (\<lambda>_. replicate 32 0) ''b'' [1] \<and>
   to_bytes ''a'' @ [0] @ [1] \<noteq> to_bytes ''b'' @ [0] @ [1]"
  using domain_hash_separates [of "''a''" "''b''" "[1]" "[1]" "\<lambda>_. replicate 32 0"]
  by (simp add: domain_hash_def)

text \<open>The restriction is needed: a NUL inside a domain moves the separator.\<close>

lemma domain_hash_nul: "domain_hash sha (d @ [CHR 0x00] @ d') p = domain_hash sha d (to_bytes d' @ [0] @ p)"
  by (simp add: domain_hash_def to_bytes_def)

end
