(* ===== verification/Decimal.thy ===== *)
theory Decimal
  imports Ids
begin

text \<open>
  Checked fixed-scale decimals, \<^verbatim>\<open>decimal.rs\<close>. A 128-bit coefficient is an integer with the range checks
  of \<open>i128::checked_*\<close> written out; precision and scale are bytes. Operations that index the table
  of powers can panic and return \<open>exc\<close>.
\<close>

section \<open>Values\<close>

record decimal =
  coefficient :: int
  precision :: u8
  scale :: u8

definition POW10 :: "int list" where
  "POW10 = map (\<lambda>i. 10 ^ i) [0..<39]"

text \<open>\<open>i128::checked_add\<close> and its siblings: the exact result when it fits.\<close>

definition i128_checked :: "int \<Rightarrow> int core_result" where
  "i128_checked v = (if - (2 ^ 127) \<le> v \<and> v < 2 ^ 127 then Inr v else Inl NumericOverflow)"

definition check_range :: "decimal \<Rightarrow> unit core_result" where
  "check_range d =
     (let bound = POW10 ! unat (precision d)
      in if coefficient d \<le> - bound \<or> coefficient d \<ge> bound then Inl NumericOverflow else Inr ())"

definition decimal_new :: "int \<Rightarrow> u8 \<Rightarrow> u8 \<Rightarrow> decimal core_result" where
  "decimal_new c p s =
     (if p = 0 \<or> p > 38 then Inl InvalidDecimal
      else if s > p then Inl InvalidDecimal
      else
        let d = \<lparr>coefficient = c, precision = p, scale = s\<rparr>
        in rbind (check_range d) (\<lambda>_. Inr d))"

definition decimal_zero :: "u8 \<Rightarrow> u8 \<Rightarrow> decimal core_result" where
  "decimal_zero p s = decimal_new 0 p s"

definition is_negative :: "decimal \<Rightarrow> bool" where
  "is_negative d \<longleftrightarrow> coefficient d < 0"

definition same_type :: "decimal \<Rightarrow> decimal \<Rightarrow> unit core_result" where
  "same_type a b =
     (if scale a \<noteq> scale b \<or> precision a \<noteq> precision b then Inl TypeMismatch else Inr ())"

section \<open>Arithmetic\<close>

definition decimal_add :: "decimal \<Rightarrow> decimal \<Rightarrow> decimal core_result" where
  "decimal_add a b =
     rbind (same_type a b) (\<lambda>_.
     rbind (i128_checked (coefficient a + coefficient b)) (\<lambda>c.
     decimal_new c (precision a) (scale a)))"

definition decimal_sub :: "decimal \<Rightarrow> decimal \<Rightarrow> decimal core_result" where
  "decimal_sub a b =
     rbind (same_type a b) (\<lambda>_.
     rbind (i128_checked (coefficient a - coefficient b)) (\<lambda>c.
     decimal_new c (precision a) (scale a)))"

definition decimal_mul_int :: "decimal \<Rightarrow> int \<Rightarrow> decimal core_result" where
  "decimal_mul_int a k =
     rbind (i128_checked (coefficient a * k)) (\<lambda>c. decimal_new c (precision a) (scale a))"

definition decimal_neg :: "decimal \<Rightarrow> decimal core_result" where
  "decimal_neg a =
     rbind (i128_checked (- coefficient a)) (\<lambda>c. decimal_new c (precision a) (scale a))"

definition lift_fail :: "'a core_result \<Rightarrow> exc + 'a" where
  "lift_fail m = (case m of Inl e \<Rightarrow> Inl (Fail e) | Inr x \<Rightarrow> Inr x)"

text \<open>
  \<open>rescale\<close>: the table has 39 entries, so a larger difference of scales is an index panic. The
  remainder and quotient are by a positive power, and are taken only when the remainder is zero.
\<close>

definition rescale :: "decimal \<Rightarrow> u8 \<Rightarrow> u8 \<Rightarrow> exc + decimal" where
  "rescale d p s =
     (if s \<ge> scale d then
        let i = unat (s - scale d)
        in if i \<ge> length POW10 then Inl Panic
           else lift_fail (rbind (i128_checked (coefficient d * POW10 ! i)) (\<lambda>c. decimal_new c p s))
      else
        let i = unat (scale d - s)
        in if i \<ge> length POW10 then Inl Panic
           else
             let f = POW10 ! i
             in if \<not> f dvd coefficient d then Inl (Fail InvalidDecimal)
                else lift_fail (decimal_new (coefficient d div f) p s))"

datatype ordering = OLess | OEqual | OGreater

definition int_cmp :: "int \<Rightarrow> int \<Rightarrow> ordering" where
  "int_cmp a b = (if a < b then OLess else if a = b then OEqual else OGreater)"

definition cmp_exact :: "decimal \<Rightarrow> decimal \<Rightarrow> exc + ordering" where
  "cmp_exact a b =
     (let s = max (scale a) (scale b)
      in rbind (rescale a 38 s) (\<lambda>x. rbind (rescale b 38 s) (\<lambda>y.
           Inr (int_cmp (coefficient x) (coefficient y)))))"

definition partial_cmp :: "decimal \<Rightarrow> decimal \<Rightarrow> ordering option" where
  "partial_cmp a b =
     (if scale a = scale b \<and> precision a = precision b
      then Some (int_cmp (coefficient a) (coefficient b)) else None)"

section \<open>Text\<close>

definition split_once :: "char \<Rightarrow> string \<Rightarrow> (string \<times> string) option" where
  "split_once c s =
     (if c \<in> set s then Some (takeWhile (\<lambda>x. x \<noteq> c) s, tl (dropWhile (\<lambda>x. x \<noteq> c) s)) else None)"

definition decimal_parse :: "string \<Rightarrow> u8 \<Rightarrow> u8 \<Rightarrow> decimal core_result" where
  "decimal_parse text p s =
     (let neg = (text \<noteq> [] \<and> hd text = CHR ''-''); body = (if neg then tl text else text)
      in if body = [] \<or> hd body = CHR ''+'' then Inl InvalidDecimal
         else
           let (int_part, frac_part) = (case split_once (CHR ''.'') body of
                 Some (i, f) \<Rightarrow> (i, f) | None \<Rightarrow> (body, []))
           in if int_part = [] \<or> \<not> list_all is_digit int_part \<or> \<not> list_all is_digit frac_part
              then Inl InvalidDecimal
              else if 1 < length int_part \<and> hd int_part = CHR ''0'' then Inl InvalidDecimal
              else if length frac_part > unat s then Inl InvalidDecimal
              else
                let digits = int_part @ frac_part @ replicate (unat s - length frac_part) (CHR ''0'')
                in if length digits > 39 then Inl NumericOverflow
                   else
                     rbind (int_digits 0 digits) (\<lambda>v.
                       let c = (if neg then - v else v)
                       in if neg \<and> c = 0 then Inl InvalidDecimal else decimal_new c p s))"

definition to_text :: "decimal \<Rightarrow> string" where
  "to_text d =
     (let s = show_nat (nat \<bar>coefficient d\<bar>); k = unat (scale d)
      in (if coefficient d < 0 then ''-'' else []) @
         (if k = 0 then s
          else if length s \<le> k then ''0.'' @ replicate (k - length s) (CHR ''0'') @ s
          else take (length s - k) s @ ''.'' @ drop (length s - k) s))"

section \<open>Canonical form\<close>

definition decimal_to_canon :: "decimal \<Rightarrow> canon" where
  "decimal_to_canon d =
     c_obj [(''kind'', CStr ''decimal.v1''), (''coefficient'', c_int (coefficient d)),
            (''precision'', c_u32 (ucast (precision d))), (''scale'', c_u32 (ucast (scale d)))]"

definition decimal_from_canon :: "canon \<Rightarrow> decimal core_result" where
  "decimal_from_canon v =
     rbind (expect_fields v [''coefficient'', ''kind'', ''precision'', ''scale'']) (\<lambda>_.
     rbind (field_as v ''kind'' as_str) (\<lambda>kind.
     if kind \<noteq> ''decimal.v1'' then Inl NonCanonicalEncoding
     else
       rbind (field_as v ''coefficient'' as_i128) (\<lambda>c.
       rbind (field_as v ''precision'' as_u32) (\<lambda>p.
       rbind (field_as v ''scale'' as_u32) (\<lambda>s.
       if p > 38 \<or> s > 38 then Inl InvalidDecimal
       else decimal_new c (ucast p) (ucast s))))))"

section \<open>The type invariant\<close>

definition decimal_valid :: "decimal \<Rightarrow> bool" where
  "decimal_valid d \<longleftrightarrow>
     0 < unat (precision d) \<and> unat (precision d) \<le> 38 \<and> unat (scale d) \<le> unat (precision d) \<and>
     \<bar>coefficient d\<bar> < 10 ^ unat (precision d)"

lemma POW10_nth: "i < 39 \<Longrightarrow> POW10 ! i = 10 ^ i"
  by (simp add: POW10_def)

lemma length_POW10 [simp]: "length POW10 = 39"
  by (simp add: POW10_def)

lemma u8_38: "p > (38 :: u8) \<longleftrightarrow> unat p > 38" "p = (0 :: u8) \<longleftrightarrow> unat p = 0"
  by (simp_all add: word_less_nat_alt unat_eq_zero)

lemma decimal_new_Inr:
  "decimal_new c p s = Inr d \<longleftrightarrow> d = \<lparr>coefficient = c, precision = p, scale = s\<rparr> \<and> decimal_valid d"
proof (cases "0 < unat p \<and> unat p \<le> 38 \<and> unat s \<le> unat p")
  case True
  then have "POW10 ! unat p = 10 ^ unat p" by (simp add: POW10_nth)
  with True show ?thesis
    by (auto simp: decimal_new_def check_range_def decimal_valid_def u8_38 word_less_nat_alt Let_def abs_less_iff)
next
  case False
  then show ?thesis
    by (auto simp: decimal_new_def decimal_valid_def u8_38 word_less_nat_alt)
qed

lemma decimal_new_same_type:
  assumes "decimal_valid d"
  shows "decimal_new c (precision d) (scale d) =
    (if \<bar>c\<bar> < 10 ^ unat (precision d) then Inr (d\<lparr>coefficient := c\<rparr>) else Inl NumericOverflow)"
proof -
  have p: "0 < unat (precision d)" "unat (precision d) \<le> 38" "unat (scale d) \<le> unat (precision d)"
    using assms by (simp_all add: decimal_valid_def)
  then have "POW10 ! unat (precision d) = 10 ^ unat (precision d)" by (simp add: POW10_nth)
  with p show ?thesis
    by (cases d) (auto simp: decimal_new_def check_range_def u8_38 word_less_nat_alt Let_def)
qed

lemma pow10_i128: "n \<le> 38 \<Longrightarrow> \<bar>c\<bar> < 10 ^ n \<Longrightarrow> - (2 ^ 127) \<le> c \<and> c < (2 :: int) ^ 127"
proof -
  assume n: "n \<le> 38" and c: "\<bar>c\<bar> < 10 ^ n"
  have "(10 :: int) ^ n \<le> 10 ^ 38" using n by (intro power_increasing) simp_all
  with c have "\<bar>c\<bar> < 10 ^ 38" by linarith
  then show ?thesis by (simp add: abs_less_iff)
qed

lemma checked_new:
  assumes "decimal_valid d"
  shows "rbind (i128_checked v) (\<lambda>c. decimal_new c (precision d) (scale d)) =
    (if \<bar>v\<bar> < 10 ^ unat (precision d) then Inr (d\<lparr>coefficient := v\<rparr>) else Inl NumericOverflow)"
  using assms pow10_i128 [of "unat (precision d)" v]
  by (auto simp: i128_checked_def decimal_new_same_type decimal_valid_def)

text \<open>
  C25: exact arithmetic: on valid operands addition, subtraction, multiplication by an integer and
  negation return the exact result with the type of the first operand when it fits the precision, and
  otherwise an error: \<open>TypeMismatch\<close> for operands of different types, \<open>NumericOverflow\<close> for a result
  that does not fit. Nothing wraps, saturates or rounds, and every result is valid.
\<close>

theorem decimal_arithmetic_exact:
  assumes "decimal_valid a"
  shows "decimal_add a b =
       (if scale a \<noteq> scale b \<or> precision a \<noteq> precision b then Inl TypeMismatch
        else if \<bar>coefficient a + coefficient b\<bar> < 10 ^ unat (precision a)
        then Inr (a\<lparr>coefficient := coefficient a + coefficient b\<rparr>) else Inl NumericOverflow) \<and>
     decimal_sub a b =
       (if scale a \<noteq> scale b \<or> precision a \<noteq> precision b then Inl TypeMismatch
        else if \<bar>coefficient a - coefficient b\<bar> < 10 ^ unat (precision a)
        then Inr (a\<lparr>coefficient := coefficient a - coefficient b\<rparr>) else Inl NumericOverflow) \<and>
     decimal_mul_int a k =
       (if \<bar>coefficient a * k\<bar> < 10 ^ unat (precision a)
        then Inr (a\<lparr>coefficient := coefficient a * k\<rparr>) else Inl NumericOverflow) \<and>
     decimal_neg a = Inr (a\<lparr>coefficient := - coefficient a\<rparr>)"
proof -
  have "\<bar>coefficient a\<bar> < 10 ^ unat (precision a)" using assms by (simp add: decimal_valid_def)
  then have "decimal_neg a = Inr (a\<lparr>coefficient := - coefficient a\<rparr>)"
    by (simp add: decimal_neg_def checked_new [OF assms])
  then show ?thesis
    by (simp add: decimal_add_def decimal_sub_def decimal_mul_int_def same_type_def checked_new [OF assms])
qed

theorem decimal_arithmetic_exact_witness:
  "decimal_add \<lparr>coefficient = 1050, precision = 4, scale = 2\<rparr>
     \<lparr>coefficient = 8950, precision = 4, scale = 2\<rparr> = Inl NumericOverflow"
  using decimal_arithmetic_exact [of "\<lparr>coefficient = 1050, precision = 4, scale = 2\<rparr>"
      "\<lparr>coefficient = 8950, precision = 4, scale = 2\<rparr>" 0]
  by (simp add: decimal_valid_def)

lemma lift_fail_simps [simp]: "lift_fail m = Inr d \<longleftrightarrow> m = Inr d" "lift_fail m \<noteq> Inl Panic"
  by (simp_all add: lift_fail_def split: sum.splits)

lemma unat_diff_u8: "a \<ge> (b :: u8) \<Longrightarrow> unat (a - b) = unat a - unat b \<and> unat b \<le> unat a"
  by (simp add: unat_sub word_le_nat_alt)

lemma rescale_value:
  assumes "rescale d p s = Inr d'"
  shows "decimal_valid d'" "precision d' = p" "scale d' = s"
    "coefficient d' * 10 ^ unat (scale d) = coefficient d * 10 ^ unat s"
proof -
  have "decimal_valid d' \<and> precision d' = p \<and> scale d' = s \<and>
    coefficient d' * 10 ^ unat (scale d) = coefficient d * 10 ^ unat s"
  proof (cases "s \<ge> scale d")
    case True
    note u = unat_diff_u8 [OF True]
    have "(10 :: int) ^ (unat s - unat (scale d)) * 10 ^ unat (scale d) = 10 ^ unat s"
      using u by (simp flip: power_add)
    with assms True u show ?thesis
      by (auto simp: rescale_def Let_def POW10_nth decimal_new_Inr rbind_eq_Inr_iff i128_checked_def mult.assoc
          split: if_splits)
  next
    case False
    note u = unat_diff_u8 [OF less_imp_le [OF False [unfolded not_le]]]
    define k where "k = unat (scale d) - unat s"
    have pow: "(10 :: int) ^ unat (scale d) = 10 ^ k * 10 ^ unat s"
      using u by (simp add: k_def flip: power_add)
    have "c div 10 ^ k * 10 ^ unat (scale d) = c * 10 ^ unat s" if "10 ^ k dvd c" for c :: int
      using that by (simp add: pow mult.assoc [symmetric])
    with assms False u show ?thesis
      by (auto simp: rescale_def Let_def POW10_nth decimal_new_Inr k_def split: if_splits)
  qed
  then show "decimal_valid d'" "precision d' = p" "scale d' = s"
    "coefficient d' * 10 ^ unat (scale d) = coefficient d * 10 ^ unat s" by simp_all
qed

lemma rescale_panic:
  assumes "decimal_valid d"
  shows "rescale d p s = Inl Panic \<longleftrightarrow> unat s \<ge> unat (scale d) + 39"
proof (cases "s \<ge> scale d")
  case True
  then show ?thesis using unat_diff_u8 [OF True] by (auto simp: rescale_def Let_def)
next
  case False
  then have "unat s < unat (scale d)" by (simp add: word_le_nat_alt)
  moreover have "unat (scale d - s) < 39"
    using assms unat_diff_u8 [OF less_imp_le [OF False [unfolded not_le]]]
    unfolding decimal_valid_def by linarith
  ultimately show ?thesis using False by (simp add: rescale_def Let_def)
qed

text \<open>
  C26: rescaling: a rescale that returns keeps the numerical value exactly, in the requested type and
  valid; it panics exactly when the new scale exceeds the old one by 39 or more.
\<close>

theorem rescale_exact:
  assumes "decimal_valid d"
  shows "(rescale d p s = Inr d' \<longrightarrow>
       decimal_valid d' \<and> precision d' = p \<and> scale d' = s \<and>
       coefficient d' * 10 ^ unat (scale d) = coefficient d * 10 ^ unat s) \<and>
     (rescale d p s = Inl Panic \<longleftrightarrow> unat s \<ge> unat (scale d) + 39)"
  using rescale_value rescale_panic [OF assms] by blast

theorem rescale_exact_witness:
  "coefficient \<lparr>coefficient = 12000, precision = 10, scale = 3\<rparr> * 10 ^ 1 = 120 * 10 ^ 3 \<and>
   rescale \<lparr>coefficient = 120, precision = 5, scale = 1\<rparr> 38 40 = Inl Panic"
  using rescale_exact [of "\<lparr>coefficient = 120, precision = 5, scale = 1\<rparr>" 10 3
      "\<lparr>coefficient = 12000, precision = 10, scale = 3\<rparr>"]
    rescale_exact [of "\<lparr>coefficient = 120, precision = 5, scale = 1\<rparr>" 38 40]
  by (simp add: decimal_valid_def)

lemma cmp_exact_value:
  assumes "cmp_exact a b = Inr o'"
  shows "o' = int_cmp (coefficient a * 10 ^ unat (scale b)) (coefficient b * 10 ^ unat (scale a))"
proof -
  define S where "S = max (scale a) (scale b)"
  obtain x y where x: "rescale a 38 S = Inr x" and y: "rescale b 38 S = Inr y"
    and o': "o' = int_cmp (coefficient x) (coefficient y)"
    using assms by (auto simp: cmp_exact_def Let_def S_def rbind_eq_Inr_iff)
  define A B T where "A = (10 :: int) ^ unat (scale a)" and "B = (10 :: int) ^ unat (scale b)"
    and "T = (10 :: int) ^ unat S"
  have pos: "A > 0" "B > 0" "T > 0" by (simp_all add: A_def B_def T_def)
  have eq: "coefficient x * A = coefficient a * T" "coefficient y * B = coefficient b * T"
    using rescale_value(4) [OF x] rescale_value(4) [OF y] by (simp_all add: A_def B_def T_def)
  have "coefficient x * (A * B) = coefficient x * A * B" "coefficient y * (A * B) = coefficient y * B * A"
    by (simp_all add: ac_simps)
  then have scaled: "coefficient x * (A * B) = coefficient a * B * T" "coefficient y * (A * B) = coefficient b * A * T"
    unfolding eq by (simp_all add: ac_simps)
  have "coefficient x < coefficient y \<longleftrightarrow> coefficient x * (A * B) < coefficient y * (A * B)"
    using pos by (simp add: mult_less_cancel_right_pos)
  also have "\<dots> \<longleftrightarrow> coefficient a * B < coefficient b * A"
    unfolding scaled using pos by (simp add: mult_less_cancel_right_pos)
  finally have less: "coefficient x < coefficient y \<longleftrightarrow> coefficient a * B < coefficient b * A" .
  have "coefficient x = coefficient y \<longleftrightarrow> coefficient x * (A * B) = coefficient y * (A * B)"
    using pos by simp
  also have "\<dots> \<longleftrightarrow> coefficient a * B = coefficient b * A"
    unfolding scaled using pos by simp
  finally have "coefficient x = coefficient y \<longleftrightarrow> coefficient a * B = coefficient b * A" .
  with less show ?thesis by (simp add: o' int_cmp_def A_def B_def)
qed

section \<open>Text round trip\<close>

lemma digit_not_special: "is_digit c \<Longrightarrow> c \<noteq> CHR ''.'' \<and> c \<noteq> CHR ''-'' \<and> c \<noteq> CHR ''+''"
  by (auto simp: is_digit_def)

lemma is_digit_zero [simp]: "is_digit (CHR ''0'')"
  by (simp add: is_digit_def)

lemma digits_no_dot: "list_all is_digit s \<Longrightarrow> CHR ''.'' \<notin> set s"
  by (auto simp: list_all_iff dest: digit_not_special)

lemma split_once_digits:
  assumes "list_all is_digit i"
  shows "split_once (CHR ''.'') i = None" "split_once (CHR ''.'') (i @ CHR ''.'' # f) = Some (i, f)"
proof -
  have "takeWhile (\<lambda>x. x \<noteq> CHR ''.'') (i @ CHR ''.'' # f) = i"
    "dropWhile (\<lambda>x. x \<noteq> CHR ''.'') (i @ CHR ''.'' # f) = CHR ''.'' # f"
    using digits_no_dot [OF assms] by (auto simp: takeWhile_append dropWhile_append)
  then show "split_once (CHR ''.'') i = None" "split_once (CHR ''.'') (i @ CHR ''.'' # f) = Some (i, f)"
    using digits_no_dot [OF assms] by (simp_all add: split_once_def)
qed

lemma list_all_replicate: "P c \<Longrightarrow> list_all P (replicate k c)"
  by (induction k) simp_all

lemma int_digits_zeros: "int_digits 0 (replicate k (CHR ''0'') @ ds) = int_digits 0 ds"
  by (induction k) (simp_all add: digit_value_def i128_max_def)

text \<open>The unsigned body of a literal: an integer part and a fraction of exactly \<open>scale\<close> digits.\<close>

definition literal :: "string \<Rightarrow> string \<Rightarrow> string" where
  "literal i f = (if f = [] then i else i @ ''.'' @ f)"

lemma parse_literal:
  assumes i: "i \<noteq> []" "list_all is_digit i" "length i = 1 \<or> hd i \<noteq> CHR ''0''"
    and f: "list_all is_digit f" "length f = unat s" "length i + length f \<le> 39"
    and v: "int_digits 0 (i @ f) = Inr v" "neg \<Longrightarrow> v \<noteq> 0"
  shows "decimal_parse ((if neg then ''-'' else []) @ literal i f) p s = decimal_new (if neg then - v else v) p s"
proof -
  obtain c cs where ics: "i = c # cs" using i(1) by (cases i) auto
  then have c: "c \<noteq> CHR ''-''" "c \<noteq> CHR ''+''" using i(2) digit_not_special [of c] by auto
  have body: "literal i f \<noteq> []" "hd (literal i f) = c" by (auto simp: literal_def ics)
  have parts: "(case split_once (CHR ''.'') (literal i f) of Some (i, f) \<Rightarrow> (i, f) | None \<Rightarrow> (literal i f, [])) = (i, f)"
    using split_once_digits [OF i(2)] by (simp add: literal_def)
  have lead: "\<not> (1 < length i \<and> hd i = CHR ''0'')" using i(3) by auto
  have sign: "((if neg then ''-'' else []) @ literal i f \<noteq> [] \<and>
      hd ((if neg then ''-'' else []) @ literal i f) = CHR ''-'') = neg"
    using body c by (cases "literal i f") auto
  have tl: "(if neg then tl ((if neg then ''-'' else []) @ literal i f)
      else (if neg then ''-'' else []) @ literal i f) = literal i f"
    by simp
  show ?thesis
    unfolding decimal_parse_def Let_def sign tl parts
    using i(1,2) f lead c body v by auto
qed

lemma to_text_literal:
  assumes "decimal_valid d"
  obtains i f where "to_text d = (if coefficient d < 0 then ''-'' else []) @ literal i f"
    "i \<noteq> []" "list_all is_digit i" "length i = 1 \<or> hd i \<noteq> CHR ''0''"
    "list_all is_digit f" "length f = unat (scale d)" "length i + length f \<le> 39"
    "int_digits 0 (i @ f) = Inr \<bar>coefficient d\<bar>"
proof -
  define m k n where "m = nat \<bar>coefficient d\<bar>" and "k = unat (scale d)" and "n = unat (precision d)"
  have valid: "k \<le> n" "n \<le> 38" "0 < n" "int m < 10 ^ n"
    using assms by (simp_all add: decimal_valid_def m_def k_def n_def)
  have "int m \<le> i128_max"
    using pow10_i128 [OF valid(2), of "int m"] valid(4) by (simp add: i128_max_def)
  then have val: "int_digits 0 (show_nat m) = Inr \<bar>coefficient d\<bar>"
    by (simp add: int_digits_show_nat m_def)
  have "m < 10 ^ n" using valid(4) by (metis of_nat_less_iff of_nat_numeral of_nat_power)
  then have len: "length (show_nat m) \<le> n" using valid by (intro length_show_nat) auto
  have lead: "length (show_nat m) = 1 \<or> hd (show_nat m) \<noteq> CHR ''0''"
    using hd_show_nat [of m] by (auto simp: show_nat_base)
  show ?thesis
  proof (cases "length (show_nat m) \<le> k")
    case True
    let ?f = "replicate (k - length (show_nat m)) (CHR ''0'') @ show_nat m"
    have "0 < length (show_nat m)" by simp
    then have "k \<noteq> 0" using True by linarith
    then have "to_text d = (if coefficient d < 0 then ''-'' else []) @ literal ''0'' ?f"
      using True by (simp add: to_text_def Let_def literal_def flip: m_def k_def)
    moreover have "int_digits 0 (''0'' @ ?f) = Inr \<bar>coefficient d\<bar>"
      using val int_digits_zeros [of 1] int_digits_zeros by simp
    moreover have "list_all is_digit ?f" by (simp add: list_all_replicate)
    ultimately show ?thesis using that [of "''0''" ?f] True valid by (simp add: k_def)
  next
    case False
    let ?i = "take (length (show_nat m) - k) (show_nat m)" and ?f = "drop (length (show_nat m) - k) (show_nat m)"
    have "list_all is_digit ?i \<and> list_all is_digit ?f"
      using show_nat_digits [of m] by (metis append_take_drop_id list_all_append)
    moreover have "to_text d = (if coefficient d < 0 then ''-'' else []) @ literal ?i ?f"
      using False by (auto simp: to_text_def Let_def literal_def simp flip: m_def k_def)
    moreover have "length ?i = 1 \<or> hd ?i \<noteq> CHR ''0''"
      using lead False by (cases "show_nat m") (auto simp: take_Cons')
    ultimately show ?thesis using that [of ?i ?f] False valid val len by (simp add: k_def)
  qed
qed

text \<open>
  C27: decimal text round trip: for every valid decimal, \<open>Decimal::parse\<close> of \<open>to_text\<close> at its precision
  and scale returns the decimal itself, sign and leading or trailing zeros included.
\<close>

theorem decimal_text_round_trip:
  assumes "decimal_valid d"
  shows "decimal_parse (to_text d) (precision d) (scale d) = Inr d"
proof -
  obtain i f where parts: "to_text d = (if coefficient d < 0 then ''-'' else []) @ literal i f"
    "i \<noteq> []" "list_all is_digit i" "length i = 1 \<or> hd i \<noteq> CHR ''0''"
    "list_all is_digit f" "length f = unat (scale d)" "length i + length f \<le> 39"
    "int_digits 0 (i @ f) = Inr \<bar>coefficient d\<bar>"
    using to_text_literal [OF assms] .
  show ?thesis
    unfolding parts(1)
    by (subst parse_literal [OF parts(2-8)]) (use assms in \<open>auto simp: decimal_new_Inr decimal_valid_def\<close>)
qed

theorem decimal_text_round_trip_witness:
  "decimal_parse (to_text \<lparr>coefficient = - 1230, precision = 10, scale = 2\<rparr>) 10 2 =
     Inr \<lparr>coefficient = - 1230, precision = 10, scale = 2\<rparr>"
  using decimal_text_round_trip [of "\<lparr>coefficient = - 1230, precision = 10, scale = 2\<rparr>"]
  by (simp add: decimal_valid_def)

lemma rescale_widen:
  assumes "decimal_valid d" "scale d \<le> s" "unat s \<le> 38"
  defines "c \<equiv> coefficient d * 10 ^ (unat s - unat (scale d))"
  shows "rescale d 38 s =
    (if \<bar>c\<bar> < 10 ^ 38 then Inr \<lparr>coefficient = c, precision = 38, scale = s\<rparr> else Inl (Fail NumericOverflow))"
proof -
  have u: "unat (s - scale d) = unat s - unat (scale d)" using unat_diff_u8 [OF assms(2)] by simp
  then have nth: "POW10 ! unat (s - scale d) = 10 ^ (unat s - unat (scale d))" "unat (s - scale d) < 39"
    using assms(3) by (simp_all add: POW10_nth)
  have bound: "POW10 ! 38 = 10 ^ 38" by (rule POW10_nth) simp
  have "\<not> (38 :: u8) < s" using assms(3) by (simp add: word_less_nat_alt)
  then have new: "decimal_new c 38 s =
      (if \<bar>c\<bar> < 10 ^ 38 then Inr \<lparr>coefficient = c, precision = 38, scale = s\<rparr> else Inl NumericOverflow)"
    using bound by (auto simp: decimal_new_def check_range_def Let_def abs_less_iff)
  have "rescale d 38 s = lift_fail (rbind (i128_checked c) (\<lambda>c. decimal_new c 38 s))"
    using assms(2) nth by (simp add: rescale_def Let_def c_def)
  then show ?thesis
    using pow10_i128 [of 38 c] by (auto simp: new i128_checked_def lift_fail_def)
qed

text \<open>
  C28: comparison across scales: \<open>cmp_exact\<close> of two valid decimals returns the order of their numerical
  values (compared by cross-multiplication) whenever both coefficients, brought to the larger of the two
  scales, are below \<open>10 ^ 38\<close> in absolute value; in every other case it fails with \<open>NumericOverflow\<close>, and it
  never panics.
\<close>

theorem cmp_exact_is_value_order:
  assumes "decimal_valid a" "decimal_valid b"
  shows "cmp_exact a b =
    (if \<bar>coefficient a\<bar> * 10 ^ (unat (scale b) - unat (scale a)) < 10 ^ 38 \<and>
        \<bar>coefficient b\<bar> * 10 ^ (unat (scale a) - unat (scale b)) < 10 ^ 38
     then Inr (int_cmp (coefficient a * 10 ^ unat (scale b)) (coefficient b * 10 ^ unat (scale a)))
     else Inl (Fail NumericOverflow))"
proof -
  define S where "S = max (scale a) (scale b)"
  have S: "unat S \<le> 38" "scale a \<le> S" "scale b \<le> S"
    using assms by (auto simp: S_def decimal_valid_def max_def)
  have diff: "unat S - unat (scale a) = unat (scale b) - unat (scale a)" "unat S - unat (scale b) = unat (scale a) - unat (scale b)"
    by (auto simp: S_def max_def word_le_nat_alt)
  note a = rescale_widen [OF assms(1) S(2,1), unfolded diff abs_mult] and b = rescale_widen [OF assms(2) S(3,1), unfolded diff abs_mult]
  have eq: "cmp_exact a b = rbind (rescale a 38 S) (\<lambda>x. rbind (rescale b 38 S) (\<lambda>y. Inr (int_cmp (coefficient x) (coefficient y))))"
    by (simp add: cmp_exact_def Let_def S_def)
  show ?thesis
  proof (cases "\<bar>coefficient a\<bar> * 10 ^ (unat (scale b) - unat (scale a)) < 10 ^ 38 \<and>
        \<bar>coefficient b\<bar> * 10 ^ (unat (scale a) - unat (scale b)) < 10 ^ 38")
    case True
    then obtain r where "cmp_exact a b = Inr r" unfolding eq a b by simp
    then show ?thesis using True cmp_exact_value by simp
  next
    case False
    then show ?thesis unfolding eq a b by auto
  qed
qed

theorem cmp_exact_is_value_order_witness:
  "cmp_exact \<lparr>coefficient = 15, precision = 4, scale = 1\<rparr> \<lparr>coefficient = 149, precision = 4, scale = 2\<rparr> = Inr OGreater \<and>
   cmp_exact \<lparr>coefficient = 10 ^ 37, precision = 38, scale = 0\<rparr> \<lparr>coefficient = 1, precision = 4, scale = 2\<rparr> =
     Inl (Fail NumericOverflow)"
  using cmp_exact_is_value_order [of "\<lparr>coefficient = 15, precision = 4, scale = 1\<rparr>" "\<lparr>coefficient = 149, precision = 4, scale = 2\<rparr>"]
    cmp_exact_is_value_order [of "\<lparr>coefficient = 10 ^ 37, precision = 38, scale = 0\<rparr>" "\<lparr>coefficient = 1, precision = 4, scale = 2\<rparr>"]
  by (simp add: decimal_valid_def int_cmp_def)

lemma decimal_canonical: "canonical decimal_to_canon decimal_from_canon decimal_valid"
proof unfold_locales
  fix d assume d: "decimal_valid d"
  have "\<bar>coefficient d\<bar> \<le> 2 ^ 127 - 1"
    using d pow10_i128 [of "unat (precision d)" "\<bar>coefficient d\<bar>"] by (simp add: decimal_valid_def)
  then have c: "as_i128 (c_int (coefficient d)) = Inr (coefficient d)"
    by (simp add: as_i128_def c_int_def parse_show_int)
  have narrow: "ucast (ucast w :: u32) = w" "unat (ucast w :: u32) = unat w" for w :: u8
    by (rule bit_word_eqI, simp add: bit_ucast_iff)
      (use unsigned_less [of w, where 'a = nat] in \<open>simp add: unsigned_ucast_eq take_bit_nat_eq_self\<close>)
  have "\<not> ucast (precision d) > (38 :: u32)" "\<not> ucast (scale d) > (38 :: u32)"
    using d by (auto simp: decimal_valid_def word_less_nat_alt narrow)
  with c d show "decimal_from_canon (decimal_to_canon d) = Inr d"
    by (simp add: decimal_from_canon_def decimal_to_canon_def c_u32n.from_to narrow decimal_new_Inr insert_commute)
  show "canon_wf (decimal_to_canon d)"
    by (simp add: decimal_to_canon_def c_u32n.to_canon_wf c_int_def show_int_ascii is_ascii_utf8)
  show "decimal_to_canon d \<noteq> CNull" by (simp add: decimal_to_canon_def)
next
  fix v d assume "canon_wf v" "decimal_from_canon v = Inr d"
  then show "decimal_valid d"
    by (auto simp: decimal_from_canon_def rbind_eq_Inr_iff decimal_new_Inr split: if_splits)
qed

interpretation c_decimal: canonical decimal_to_canon decimal_from_canon decimal_valid
  by (rule decimal_canonical)

end
