(* ===== verification/KeyCodec.thy ===== *)
theory KeyCodec
  imports Carolina_Prelude
begin

text \<open>
  The order-preserving key codec of \<^verbatim>\<open>keycodec.rs\<close>: namespaces, the writer, the reader and the upper
  bound of a prefix scan. The writer appends to its buffer, the reader consumes the bytes that remain.
\<close>

unbundle bit_operations_syntax

section \<open>Namespaces\<close>

datatype namespace =
    NsUser | NsCatalog | NsIdcMeta | NsEscrow | NsTxnStatus | NsPlan | NsReplication | NsSystem
  | NsIndex | NsRequestBinding | NsFact

fun namespace_byte :: "namespace \<Rightarrow> u8" where
  "namespace_byte NsUser = 0x01"
| "namespace_byte NsCatalog = 0x02"
| "namespace_byte NsIdcMeta = 0x03"
| "namespace_byte NsEscrow = 0x04"
| "namespace_byte NsTxnStatus = 0x05"
| "namespace_byte NsPlan = 0x06"
| "namespace_byte NsReplication = 0x07"
| "namespace_byte NsSystem = 0x08"
| "namespace_byte NsIndex = 0x09"
| "namespace_byte NsRequestBinding = 0x0a"
| "namespace_byte NsFact = 0x0b"

definition namespace_from_byte :: "u8 \<Rightarrow> namespace core_result" where
  "namespace_from_byte b =
     (if b = 0x01 then Inr NsUser
      else if b = 0x02 then Inr NsCatalog
      else if b = 0x03 then Inr NsIdcMeta
      else if b = 0x04 then Inr NsEscrow
      else if b = 0x05 then Inr NsTxnStatus
      else if b = 0x06 then Inr NsPlan
      else if b = 0x07 then Inr NsReplication
      else if b = 0x08 then Inr NsSystem
      else if b = 0x09 then Inr NsIndex
      else if b = 0x0a then Inr NsRequestBinding
      else if b = 0x0b then Inr NsFact
      else Inl Corruption)"

definition is_user_writable :: "namespace \<Rightarrow> bool" where
  "is_user_writable ns \<longleftrightarrow> ns \<in> {NsUser, NsIndex, NsFact}"

section \<open>The writer\<close>

definition kw_namespace :: "namespace \<Rightarrow> bytes \<Rightarrow> bytes" where
  "kw_namespace ns buf = buf @ [namespace_byte ns]"

definition kw_u64 :: "u64 \<Rightarrow> bytes \<Rightarrow> bytes" where
  "kw_u64 v buf = buf @ [0x10] @ u64_be v"

definition kw_i64 :: "i64 \<Rightarrow> bytes \<Rightarrow> bytes" where
  "kw_i64 v buf = buf @ [0x11] @ u64_be (v XOR push_bit 63 1)"

definition kw_bool :: "bool \<Rightarrow> bytes \<Rightarrow> bytes" where
  "kw_bool v buf = buf @ [0x12] @ [if v then 1 else 0]"

definition kw_id16 :: "bytes \<Rightarrow> bytes \<Rightarrow> bytes" where
  "kw_id16 v buf = buf @ [0x13] @ v"

fun escape_bytes :: "bytes \<Rightarrow> bytes" where
  "escape_bytes [] = []"
| "escape_bytes (b # bs) = (if b = 0 then [b, 0xff] else [b]) @ escape_bytes bs"

definition kw_bytes :: "bytes \<Rightarrow> bytes \<Rightarrow> bytes" where
  "kw_bytes v buf = buf @ [0x14] @ escape_bytes v @ [0, 0]"

definition kw_decimal :: "128 word \<Rightarrow> bytes \<Rightarrow> bytes" where
  "kw_decimal c buf = buf @ [0x15] @ be_bytes 16 (unat (c XOR push_bit 127 1))"

definition kw_enum_variant :: "u32 \<Rightarrow> bytes \<Rightarrow> bytes" where
  "kw_enum_variant i buf = buf @ [0x16] @ u32_be i"

definition kw_none :: "bytes \<Rightarrow> bytes" where
  "kw_none buf = buf @ [0x17] @ [0]"

definition kw_some_marker :: "bytes \<Rightarrow> bytes" where
  "kw_some_marker buf = buf @ [0x17] @ [1]"

definition kw_tuple_header :: "u16 \<Rightarrow> bytes \<Rightarrow> bytes" where
  "kw_tuple_header arity buf = buf @ [0x18] @ u16_be arity"

section \<open>The reader\<close>

datatype key_elem =
    KU64 u64 | KI64 i64 | KBool bool | KId16 bytes | KBytes bytes | KDecimal "128 word"
  | KEnum u32 | KNone | KSome | KTuple u16

definition kr_take :: "nat \<Rightarrow> bytes \<Rightarrow> (bytes \<times> bytes) core_result" where
  "kr_take n src = (if n > length src then Inl Corruption else Inr (take n src, drop n src))"

definition kr_namespace :: "bytes \<Rightarrow> (namespace \<times> bytes) core_result" where
  "kr_namespace src =
     rbind (kr_take 1 src) (\<lambda>(b, r). rbind (namespace_from_byte (hd b)) (\<lambda>ns. Inr (ns, r)))"

text \<open>The loop that undoes the escaping, after the tag byte.\<close>

fun kr_unescape :: "bytes \<Rightarrow> bytes \<Rightarrow> (bytes \<times> bytes) core_result" where
  "kr_unescape acc [] = Inl Corruption"
| "kr_unescape acc (b # src) =
     (if b = 0 then
        (case src of
           [] \<Rightarrow> Inl Corruption
         | n # r \<Rightarrow>
             if n = 0 then Inr (acc, r)
             else if n = 0xff then kr_unescape (acc @ [0]) r
             else Inl Corruption)
      else kr_unescape (acc @ [b]) src)"

definition kr_elem :: "bytes \<Rightarrow> (key_elem \<times> bytes) core_result" where
  "kr_elem src =
     rbind (kr_take 1 src) (\<lambda>(t, src).
       let tag = hd t
       in if tag = 0x10 then
            rbind (kr_take 8 src) (\<lambda>(b, r). Inr (KU64 (of_nat (be_value b)), r))
          else if tag = 0x11 then
            rbind (kr_take 8 src) (\<lambda>(b, r). Inr (KI64 (of_nat (be_value b) XOR push_bit 63 1), r))
          else if tag = 0x12 then
            rbind (kr_take 1 src) (\<lambda>(b, r).
              if hd b = 0 then Inr (KBool False, r)
              else if hd b = 1 then Inr (KBool True, r) else Inl Corruption)
          else if tag = 0x13 then rbind (kr_take 16 src) (\<lambda>(b, r). Inr (KId16 b, r))
          else if tag = 0x14 then rbind (kr_unescape [] src) (\<lambda>(b, r). Inr (KBytes b, r))
          else if tag = 0x15 then
            rbind (kr_take 16 src) (\<lambda>(b, r). Inr (KDecimal (of_nat (be_value b) XOR push_bit 127 1), r))
          else if tag = 0x16 then
            rbind (kr_take 4 src) (\<lambda>(b, r). Inr (KEnum (of_nat (be_value b)), r))
          else if tag = 0x17 then
            rbind (kr_take 1 src) (\<lambda>(b, r).
              if hd b = 0 then Inr (KNone, r)
              else if hd b = 1 then Inr (KSome, r) else Inl Corruption)
          else if tag = 0x18 then
            rbind (kr_take 2 src) (\<lambda>(b, r). Inr (KTuple (of_nat (be_value b)), r))
          else Inl Corruption)"

definition kr_finish :: "bytes \<Rightarrow> unit core_result" where
  "kr_finish src = (if src \<noteq> [] then Inl Corruption else Inr ())"

section \<open>Prefix scans\<close>

text \<open>\<open>while let Some(last) = out.pop()\<close>: the reversed buffer is consumed from its end.\<close>

fun upper_bound_loop :: "bytes \<Rightarrow> bytes option" where
  "upper_bound_loop [] = None"
| "upper_bound_loop (b # rout) = (if b < 0xff then Some (rev ((b + 1) # rout)) else upper_bound_loop rout)"

definition prefix_upper_bound :: "bytes \<Rightarrow> bytes option" where
  "prefix_upper_bound prefix = upper_bound_loop (rev prefix)"

section \<open>Elements\<close>

text \<open>The writer's method for each kind of element, and the elements it can write.\<close>

fun kw_elem :: "key_elem \<Rightarrow> bytes \<Rightarrow> bytes" where
  "kw_elem (KU64 v) = kw_u64 v"
| "kw_elem (KI64 v) = kw_i64 v"
| "kw_elem (KBool v) = kw_bool v"
| "kw_elem (KId16 v) = kw_id16 v"
| "kw_elem (KBytes v) = kw_bytes v"
| "kw_elem (KDecimal v) = kw_decimal v"
| "kw_elem (KEnum v) = kw_enum_variant v"
| "kw_elem KNone = kw_none"
| "kw_elem KSome = kw_some_marker"
| "kw_elem (KTuple v) = kw_tuple_header v"

fun key_elem_valid :: "key_elem \<Rightarrow> bool" where
  "key_elem_valid (KId16 b) \<longleftrightarrow> length b = 16"
| "key_elem_valid _ \<longleftrightarrow> True"

lemmas kw_defs =
  kw_u64_def kw_i64_def kw_bool_def kw_id16_def kw_bytes_def kw_decimal_def kw_enum_variant_def
  kw_none_def kw_some_marker_def kw_tuple_header_def

lemma kw_elem_append: "kw_elem e buf = buf @ kw_elem e []"
  by (cases e) (simp_all add: kw_defs)

lemma kr_take_append: "length b = n \<Longrightarrow> kr_take n (b @ r) = Inr (b, r)"
  by (auto simp: kr_take_def)

lemma kr_take_1 [simp]: "kr_take 1 (t # r) = Inr ([t], r)" "kr_take (Suc 0) (t # r) = Inr ([t], r)"
  by (simp_all add: kr_take_def)

lemma kr_take_Inr: "kr_take n src = Inr (b, r) \<longleftrightarrow> src = b @ r \<and> length b = n"
  by (auto simp: kr_take_def split: if_splits)

lemma of_nat_be_value [simp]:
  "of_nat (be_value (u64_be v)) = v" "of_nat (be_value (u32_be w)) = w" "of_nat (be_value (u16_be x)) = x"
  by simp_all

lemma be_bytes_16:
  "of_nat (be_value (be_bytes 16 (unat (c :: 128 word)))) = c"
proof -
  have "unat c < 256 ^ 16" using unsigned_less [of c] by simp
  then show ?thesis by (simp add: be_value_be_bytes)
qed

lemma xor_twice [simp]: "(w XOR m) XOR m = (w :: 'a :: len word)"
  by (simp add: xor.assoc)

lemma kr_unescape_escape: "kr_unescape acc (escape_bytes v @ 0 # 0 # r) = Inr (acc @ v, r)"
  by (induction v arbitrary: acc) auto

lemma kr_unescape_Inr:
  "kr_unescape acc src = Inr (out, r) \<Longrightarrow> \<exists>v. out = acc @ v \<and> src = escape_bytes v @ 0 # 0 # r"
proof (induction acc src rule: kr_unescape.induct)
  case (2 acc b src)
  show ?case
  proof (cases "b = 0")
    case False
    with 2 obtain v where "out = (acc @ [b]) @ v" "src = escape_bytes v @ 0 # 0 # r" by auto
    with False show ?thesis by (intro exI [of _ "b # v"]) simp
  next
    case True
    with 2(3) obtain n r' where src: "src = n # r'" by (cases src) auto
    with 2(1,3) True show ?thesis
      by (cases "n = 0") (auto split: if_splits intro: exI [of _ "0 # _"])
  qed
qed simp

lemma kr_elem_kw_elem: "key_elem_valid e \<Longrightarrow> kr_elem (kw_elem e [] @ r) = Inr (e, r)"
  by (cases e)
    (simp_all add: kw_defs kr_elem_def Let_def kr_take_append be_bytes_16 kr_unescape_escape)

lemma unat_be_value:
  fixes w :: "'a :: len word"
  assumes "length b = n" "256 ^ n = (2 :: nat) ^ LENGTH('a)" "w = of_nat (be_value b)"
  shows "be_bytes n (unat w) = b"
proof -
  have "be_value b < 2 ^ LENGTH('a)" using be_value_bound [of b] assms by simp
  then have "unat w = be_value b" using assms(3) by (simp add: unat_of_nat)
  then show ?thesis using be_bytes_be_value [of b] assms(1) by simp
qed

lemma be_bytes_of_value:
  "length b = 8 \<Longrightarrow> u64_be (of_nat (be_value b)) = b"
  "length b = 4 \<Longrightarrow> u32_be (of_nat (be_value b)) = b"
  "length b = 2 \<Longrightarrow> u16_be (of_nat (be_value b)) = b"
  "length b = 16 \<Longrightarrow> be_bytes 16 (unat (of_nat (be_value b) :: 128 word)) = b"
  unfolding u64_be_def u32_be_def u16_be_def by (rule unat_be_value; simp)+

lemma length_1_hd: "length b = Suc 0 \<Longrightarrow> b = [hd b]"
  by (cases b) auto

lemma rbind_InrE:
  assumes "rbind m (\<lambda>(b, r). f b r) = Inr y"
  obtains b r where "m = Inr (b, r)" "f b r = Inr y"
  using assms by (auto simp: rbind_eq_Inr_iff)

lemma kr_elem_Inr: "kr_elem src = Inr (e, r) \<Longrightarrow> key_elem_valid e \<and> src = kw_elem e [] @ r"
proof -
  assume *: "kr_elem src = Inr (e, r)"
  then obtain tag src' where src: "src = tag # src'"
    by (cases src) (auto simp: kr_elem_def kr_take_def)
  show ?thesis
    using * unfolding src kr_elem_def
    by (simp add: Let_def split: if_split_asm;
        elim rbind_InrE; simp add: kr_take_Inr split: if_split_asm;
        auto simp: kw_defs be_bytes_of_value dest!: kr_unescape_Inr length_1_hd)
qed

section \<open>Order\<close>

fun elem_rank :: "key_elem \<Rightarrow> nat" where
  "elem_rank (KU64 v) = 0"
| "elem_rank (KI64 v) = 1"
| "elem_rank (KBool v) = 2"
| "elem_rank (KId16 v) = 3"
| "elem_rank (KBytes v) = 4"
| "elem_rank (KDecimal v) = 5"
| "elem_rank (KEnum v) = 6"
| "elem_rank KNone = 7"
| "elem_rank KSome = 8"
| "elem_rank (KTuple v) = 9"

text \<open>The semantic order: kinds in the order of their tags, values in their natural order.\<close>

definition elem_less :: "key_elem \<Rightarrow> key_elem \<Rightarrow> bool" where
  "elem_less a b \<longleftrightarrow>
     elem_rank a < elem_rank b \<or>
     (case a of
        KU64 x \<Rightarrow> (case b of KU64 y \<Rightarrow> x < y | _ \<Rightarrow> False)
      | KI64 x \<Rightarrow> (case b of KI64 y \<Rightarrow> sint x < sint y | _ \<Rightarrow> False)
      | KBool x \<Rightarrow> (case b of KBool y \<Rightarrow> x < y | _ \<Rightarrow> False)
      | KId16 x \<Rightarrow> (case b of KId16 y \<Rightarrow> x < y | _ \<Rightarrow> False)
      | KBytes x \<Rightarrow> (case b of KBytes y \<Rightarrow> x < y | _ \<Rightarrow> False)
      | KDecimal x \<Rightarrow> (case b of KDecimal y \<Rightarrow> sint x < sint y | _ \<Rightarrow> False)
      | KEnum x \<Rightarrow> (case b of KEnum y \<Rightarrow> x < y | _ \<Rightarrow> False)
      | KTuple x \<Rightarrow> (case b of KTuple y \<Rightarrow> x < y | _ \<Rightarrow> False)
      | _ \<Rightarrow> False)"

fun key_less :: "key_elem list \<Rightarrow> key_elem list \<Rightarrow> bool" where
  "key_less xs [] \<longleftrightarrow> False"
| "key_less [] (y # ys) \<longleftrightarrow> True"
| "key_less (x # xs) (y # ys) \<longleftrightarrow> elem_less x y \<or> x = y \<and> key_less xs ys"

lemma escape_bytes_less:
  "escape_bytes u @ 0 # 0 # r < escape_bytes v @ 0 # 0 # s \<longleftrightarrow> u < v \<or> u = v \<and> r < s"
  by (induction u v rule: list_induct2') (auto simp: word_gt_0)

lemma be_less:
  "u64_be a < u64_be b \<longleftrightarrow> a < b" "u64_be a = u64_be b \<longleftrightarrow> a = b"
  "u32_be c < u32_be d \<longleftrightarrow> c < d" "u32_be c = u32_be d \<longleftrightarrow> c = d"
  "u16_be e < u16_be f \<longleftrightarrow> e < f" "u16_be e = u16_be f \<longleftrightarrow> e = f"
  by (simp_all only: u64_be_def u32_be_def u16_be_def be_bytes_less be_bytes_inject unat_bounds
      word_less_nat_alt [symmetric] word_unat_eq_iff [symmetric])

lemma be16_less:
  fixes c d :: "128 word"
  shows "be_bytes 16 (unat c) < be_bytes 16 (unat d) \<longleftrightarrow> c < d"
    and "be_bytes 16 (unat c) = be_bytes 16 (unat d) \<longleftrightarrow> c = d"
proof -
  have "unat c < 256 ^ 16" "unat d < 256 ^ 16" using unsigned_less [of c] unsigned_less [of d] by simp_all
  then show "be_bytes 16 (unat c) < be_bytes 16 (unat d) \<longleftrightarrow> c < d"
    and "be_bytes 16 (unat c) = be_bytes 16 (unat d) \<longleftrightarrow> c = d"
    by (simp_all only: be_bytes_less be_bytes_inject word_less_nat_alt [symmetric] word_unat_eq_iff [symmetric])
qed

lemma xor_inject [simp]: "v XOR m = w XOR m \<longleftrightarrow> v = (w :: 'a :: len word)"
  by (metis xor_twice)

lemma kw_elem_less:
  assumes "key_elem_valid a" "key_elem_valid b"
  shows "kw_elem a [] @ r < kw_elem b [] @ s \<longleftrightarrow> elem_less a b \<or> a = b \<and> r < s"
proof -
  have flip64: "sint v < sint w \<longleftrightarrow> v XOR push_bit 63 1 < w XOR push_bit 63 1" for v w :: u64
    using sint_less_flip [of v w] by simp
  have flip128: "sint v < sint w \<longleftrightarrow> v XOR push_bit 127 1 < w XOR push_bit 127 1" for v w :: "128 word"
    using sint_less_flip [of v w] by simp
  show ?thesis
    using assms
    by (cases a; cases b)
      (simp_all add: elem_less_def kw_defs append_less_append escape_bytes_less be_less be16_less flip64 flip128
        del: be_bytes.simps)
qed

lemma kw_elem_not_Nil [simp]: "kw_elem e [] \<noteq> []"
  by (cases e) (simp_all add: kw_defs)

lemma fold_kw_elem: "fold kw_elem xs buf = buf @ concat (map (\<lambda>e. kw_elem e []) xs)"
proof (induction xs arbitrary: buf)
  case (Cons x xs)
  then show ?case using kw_elem_append [of x buf] by simp
qed simp

lemma concat_kw_less:
  "list_all key_elem_valid xs \<Longrightarrow> list_all key_elem_valid ys \<Longrightarrow>
   concat (map (\<lambda>e. kw_elem e []) xs) < concat (map (\<lambda>e. kw_elem e []) ys) \<longleftrightarrow> key_less xs ys"
proof (induction xs ys rule: key_less.induct)
  case (2 y ys)
  then show ?case by (cases "kw_elem y []") simp_all
qed (simp_all add: kw_elem_less)

lemma append_le_append: "a @ b \<le> a @ c \<longleftrightarrow> b \<le> (c :: 'a :: linorder list)"
  by (induction a) simp_all

lemma u8_max: "\<not> b < 0xff \<longleftrightarrow> b = (0xff :: u8)" "\<not> 0xff < (b :: u8)"
proof -
  have "unat b < 256" using unsigned_less [of b, where 'a = nat] by simp
  then show "\<not> b < 0xff \<longleftrightarrow> b = (0xff :: u8)" "\<not> 0xff < b"
    by (auto simp: word_less_nat_alt word_unat_eq_iff)
qed

lemma upper_bound_last:
  fixes b :: u8
  assumes "b < 0xff"
  shows "a @ [b] \<le> k \<and> k < a @ [b + 1] \<longleftrightarrow> (\<exists>r. k = a @ [b] @ r)"
proof (induction a arbitrary: k)
  case Nil
  have "unat (b + 1) = unat b + 1" using assms by (rule unat_inc_less)
  then have *: "c < b + 1 \<longleftrightarrow> c \<le> b" for c by (simp add: word_less_nat_alt word_le_nat_alt less_Suc_eq_le)
  show ?case
  proof (cases k)
    case (Cons c k')
    have "[b] \<le> c # k' \<and> c # k' < [b + 1] \<longleftrightarrow> b \<le> c \<and> c \<le> b" by (simp add: * le_less [of b c])
    also have "\<dots> \<longleftrightarrow> c = b" by (simp add: eq_iff conj_commute)
    finally show ?thesis by (simp add: Cons)
  qed simp
next
  case (Cons x a)
  show ?case
  proof (cases k)
    case (Cons y k')
    then show ?thesis using Cons.IH [of k'] by (cases x y rule: linorder_cases) (simp_all add: less_imp_neq not_less_iff_gr_or_eq less_imp_not_eq2)
  qed simp
qed

lemma upper_bound_loop_exact:
  "p \<le> k \<and> (case upper_bound_loop (rev p) of None \<Rightarrow> True | Some u \<Rightarrow> k < u) \<longleftrightarrow> (\<exists>r. k = p @ r)"
proof (induction p rule: rev_induct)
  case (snoc b a)
  show ?case
  proof (cases "b < 0xff")
    case True
    then show ?thesis using upper_bound_last [of b a k] by simp
  next
    case False
    then have b: "b = 0xff" by (simp add: u8_max)
    have head: "[b] \<le> r \<longleftrightarrow> (\<exists>r'. r = b # r')" for r
      unfolding b by (cases r) (auto simp: u8_max)
    have "a \<le> k" if "a @ [b] \<le> k"
      using that append_le_append [of a "[]" "[b]"] by simp
    with snoc.IH head show ?thesis
      using False by (auto simp: append_le_append)
  qed
qed simp

section \<open>Properties\<close>

text \<open>
  C19: physical keys are exact and self-delimiting: \<open>KeyReader::elem\<close> returns an element and a rest
  exactly when the input is what \<open>KeyWriter\<close> writes for that element followed by the rest. No other
  byte string is accepted for an element, and no encoding is a prefix of another.
\<close>

theorem key_elem_round_trip:
  "kr_elem src = Inr (e, r) \<longleftrightarrow> key_elem_valid e \<and> src = kw_elem e [] @ r"
  using kr_elem_Inr kr_elem_kw_elem by blast

text \<open>
  C18: key order: the byte order of two written keys, of any kinds of elements and any lengths, is the
  semantic order of their elements: kinds by tag, signed integers and decimals by value across the
  sign, byte strings lexicographically in spite of the escaping, and element by element in a tuple.
\<close>

theorem key_order:
  assumes "list_all key_elem_valid xs" "list_all key_elem_valid ys"
  shows "fold kw_elem xs [] < fold kw_elem ys [] \<longleftrightarrow> key_less xs ys"
  using concat_kw_less [OF assms] by (simp add: fold_kw_elem)

theorem key_order_witness:
  "fold kw_elem [KI64 (- 5), KBytes [1, 0, 7]] [] < fold kw_elem [KI64 3, KBytes []] []"
  by (subst key_order) (simp_all add: elem_less_def)

text \<open>
  C20: prefix scans: the half-open range from a prefix to \<open>prefix_upper_bound\<close> of it (no bound when
  there is none) holds exactly the keys that start with the prefix.
\<close>

theorem prefix_upper_bound_exact:
  "p \<le> k \<and> (case prefix_upper_bound p of None \<Rightarrow> True | Some u \<Rightarrow> k < u) \<longleftrightarrow> (\<exists>r. k = p @ r)"
  unfolding prefix_upper_bound_def by (rule upper_bound_loop_exact)

text \<open>
  C21: namespaces: a byte reads as a namespace exactly when the writer writes it for that namespace,
  so the eleven namespaces own disjoint key ranges.
\<close>

theorem namespace_round_trip: "namespace_from_byte b = Inr ns \<longleftrightarrow> b = namespace_byte ns"
  by (cases ns) (auto simp: namespace_from_byte_def split: if_splits)

end
