(* ===== verification/WireRecords.thy ===== *)
theory WireRecords
  imports Ids
begin

text \<open>
  The client protocol records of \<^verbatim>\<open>records.rs\<close> and the registered wrapper of \<^verbatim>\<open>registry.rs\<close>, with
  their canonical codecs. SHA-256 is the parameter \<open>sha\<close>. Every codec is an instance of \<open>canonical\<close>.
\<close>

section \<open>Read contracts\<close>

datatype visibility = LocalSnapshot | Causal | Certified | Serial

datatype session_guarantee = ReadYourWrites | MonotonicReads | CausalDependencies

datatype session_scope = NoSession | ReplicationGroup id128 | CompositeScope "u64 list"

record read_contract =
  rc_visibility :: visibility
  rc_scope :: "u64 list"
  rc_session_guarantees :: "session_guarantee list"
  rc_session_scope :: session_scope

definition operation_default :: "visibility \<Rightarrow> read_contract" where
  "operation_default vis =
     \<lparr>rc_visibility = vis, rc_scope = [], rc_session_guarantees = [], rc_session_scope = NoSession\<rparr>"

fun sg_label :: "session_guarantee \<Rightarrow> string" where
  "sg_label ReadYourWrites = ''ReadYourWrites''"
| "sg_label MonotonicReads = ''MonotonicReads''"
| "sg_label CausalDependencies = ''CausalDependencies''"

definition sg_from_label :: "string \<Rightarrow> session_guarantee core_result" where
  "sg_from_label s =
     (if s = ''ReadYourWrites'' then Inr ReadYourWrites
      else if s = ''MonotonicReads'' then Inr MonotonicReads
      else if s = ''CausalDependencies'' then Inr CausalDependencies
      else Inl NonCanonicalEncoding)"

fun visibility_label :: "visibility \<Rightarrow> string" where
  "visibility_label LocalSnapshot = ''LocalSnapshot''"
| "visibility_label Causal = ''Causal''"
| "visibility_label Certified = ''Certified''"
| "visibility_label Serial = ''Serial''"

definition visibility_from_label :: "string \<Rightarrow> visibility core_result" where
  "visibility_from_label s =
     (if s = ''LocalSnapshot'' then Inr LocalSnapshot
      else if s = ''Causal'' then Inr Causal
      else if s = ''Certified'' then Inr Certified
      else if s = ''Serial'' then Inr Serial
      else Inl NonCanonicalEncoding)"

fun session_scope_to_canon :: "session_scope \<Rightarrow> canon" where
  "session_scope_to_canon NoSession = c_obj [(''kind'', CStr ''none'')]"
| "session_scope_to_canon (ReplicationGroup g) =
     c_obj [(''group'', id128_to_canon g), (''kind'', CStr ''replication_group'')]"
| "session_scope_to_canon (CompositeScope r) =
     c_obj [(''kind'', CStr ''composite_scope''), (''records'', fset_value epoch_to_canon r)]"

definition session_scope_from_canon :: "canon \<Rightarrow> session_scope core_result" where
  "session_scope_from_canon ss =
     rbind (field_as ss ''kind'' as_str) (\<lambda>kind.
       if kind = ''none'' then Inr NoSession
       else if kind = ''replication_group'' then
         rbind (field_as ss ''group'' id128_from_canon) (\<lambda>g. Inr (ReplicationGroup g))
       else if kind = ''composite_scope'' then
         rbind (field_as ss ''records'' (decode_set (\<lambda>x. x) epoch_from_canon)) (\<lambda>r. Inr (CompositeScope r))
       else Inl NonCanonicalEncoding)"

fun session_scope_valid :: "session_scope \<Rightarrow> bool" where
  "session_scope_valid NoSession \<longleftrightarrow> True"
| "session_scope_valid (ReplicationGroup g) \<longleftrightarrow> id128_valid g"
| "session_scope_valid (CompositeScope r) \<longleftrightarrow> set_ok (\<lambda>_. True) (\<lambda>x. x) r"

definition read_contract_valid :: "read_contract \<Rightarrow> bool" where
  "read_contract_valid r \<longleftrightarrow>
     set_ok (\<lambda>_. True) (\<lambda>x. x) (rc_scope r) \<and>
     sorted_wrt (<) (map sg_label (rc_session_guarantees r)) \<and> session_scope_valid (rc_session_scope r)"

definition read_contract_to_canon :: "read_contract \<Rightarrow> canon" where
  "read_contract_to_canon r =
     c_obj [(''scope'', fset_value epoch_to_canon (rc_scope r)),
            (''session_guarantees'', fset_value (\<lambda>g. CStr (sg_label g)) (rc_session_guarantees r)),
            (''session_scope'', session_scope_to_canon (rc_session_scope r)),
            (''visibility'', CStr (visibility_label (rc_visibility r)))]"

definition read_contract_from_canon :: "canon \<Rightarrow> read_contract core_result" where
  "read_contract_from_canon v =
     rbind (expect_fields v [''scope'', ''session_guarantees'', ''session_scope'', ''visibility'']) (\<lambda>_.
     rbind (field_as v ''visibility'' (\<lambda>f. rbind (as_str f) visibility_from_label)) (\<lambda>vis.
     rbind (field_as v ''session_guarantees'' (decode_set (\<lambda>x. x) as_str)) (\<lambda>labels.
     rbind (rmapM sg_from_label labels) (\<lambda>gs.
     rbind (field_as v ''session_scope'' session_scope_from_canon) (\<lambda>ss.
     rbind (field_as v ''scope'' (decode_set (\<lambda>x. x) epoch_from_canon)) (\<lambda>scp.
     Inr \<lparr>rc_visibility = vis, rc_scope = scp, rc_session_guarantees = gs, rc_session_scope = ss\<rparr>))))))"

lemma label_rules [codec_simps]:
  "utf8_valid (sg_label g)" "utf8_valid (visibility_label vis)"
  "sg_from_label (sg_label g) = Inr g" "visibility_from_label (visibility_label vis) = Inr vis"
  by (cases g; cases vis; simp add: is_ascii_utf8 sg_from_label_def visibility_from_label_def)+

lemma sg_from_label_Inr: "sg_from_label s = Inr g \<Longrightarrow> s = sg_label g"
  by (auto simp: sg_from_label_def split: if_splits)

lemma utf8_lit [codec_simps]: "is_ascii s \<Longrightarrow> utf8_valid s"
  by (rule is_ascii_utf8)

lemma session_scope_codec:
  "session_scope_valid s \<Longrightarrow> session_scope_from_canon (session_scope_to_canon s) = Inr s"
  "session_scope_valid s \<Longrightarrow> canon_wf (session_scope_to_canon s)"
  "canon_wf v \<Longrightarrow> session_scope_from_canon v = Inr s \<Longrightarrow> session_scope_valid s"
proof -
  show "session_scope_valid s \<Longrightarrow> session_scope_from_canon (session_scope_to_canon s) = Inr s"
    and "session_scope_valid s \<Longrightarrow> canon_wf (session_scope_to_canon s)"
    by (cases s; simp add: session_scope_from_canon_def codec_simps)+
  show "canon_wf v \<Longrightarrow> session_scope_from_canon v = Inr s \<Longrightarrow> session_scope_valid s"
    by (auto simp: session_scope_from_canon_def rbind_eq_Inr_iff split: if_splits
        elim!: field_as_InrE intro: codec_valid)
qed

lemma guarantees_codec:
  assumes "sorted_wrt (<) (map sg_label gs)"
  shows "decode_set (\<lambda>x. x) as_str (fset_value (\<lambda>g. CStr (sg_label g)) gs) = Inr (map sg_label gs)"
    and "canon_wf (fset_value (\<lambda>g. CStr (sg_label g)) gs)"
proof -
  have eq: "fset_value (\<lambda>g. CStr (sg_label g)) gs = fset_value CStr (map sg_label gs)"
    by (simp add: fset_value_def fset_canon_def o_def)
  have ok: "set_ok utf8_valid (\<lambda>x. x) (map sg_label gs)"
    using assms by (simp add: set_ok_def list_all_iff label_rules)
  show "decode_set (\<lambda>x. x) as_str (fset_value (\<lambda>g. CStr (sg_label g)) gs) = Inr (map sg_label gs)"
    and "canon_wf (fset_value (\<lambda>g. CStr (sg_label g)) gs)"
    unfolding eq by (rule c_string.set_from_to [OF ok])+
qed

lemma rmapM_label: "rmapM sg_from_label (map sg_label gs) = Inr gs"
  by (rule rmapM_map_id) (simp add: label_rules)

lemma rmapM_label_Inr: "rmapM sg_from_label ls = Inr gs \<Longrightarrow> ls = map sg_label gs"
  by (induction ls arbitrary: gs) (auto simp: rbind_eq_Inr_iff dest: sg_from_label_Inr)

interpretation c_read_contract: canonical read_contract_to_canon read_contract_from_canon read_contract_valid
proof unfold_locales
  fix r :: read_contract assume "read_contract_valid r"
  then show "read_contract_from_canon (read_contract_to_canon r) = Inr r"
    and "canon_wf (read_contract_to_canon r)" and "read_contract_to_canon r \<noteq> CNull"
    by (simp_all add: read_contract_to_canon_def read_contract_from_canon_def read_contract_valid_def
        codec_simps guarantees_codec rmapM_label session_scope_codec)
next
  fix v and r :: read_contract assume "canon_wf v" "read_contract_from_canon v = Inr r"
  then show "read_contract_valid r"
    by (auto simp: read_contract_from_canon_def read_contract_valid_def rbind_eq_Inr_iff
        dest!: rmapM_label_Inr elim!: field_as_InrE intro: codec_valid session_scope_codec(3)
        dest: c_string.set_valid [OF _ _ inj_on_self, unfolded set_ok_def])
qed

lemmas c_read_contract_rules [codec_simps] =
  c_read_contract.from_to c_read_contract.to_canon_wf c_read_contract.option_round_trip c_read_contract.option_wf

lemmas c_read_contract_valids [codec_valid] = c_read_contract.from_valid c_read_contract.option_valid

section \<open>Observation tokens\<close>

datatype observation_token =
    TokGroup id128 epoch64 bytes
  | TokCertified id128 "idc_binding list" epoch64
  | TokSerial id128 idc_binding epoch64
  | TokComposite bytes

fun observation_token_valid :: "observation_token \<Rightarrow> bool" where
  "observation_token_valid (TokGroup grp membership_generation payload) \<longleftrightarrow> id128_valid grp"
| "observation_token_valid (TokCertified authority idc_bindings frontier) \<longleftrightarrow> id128_valid authority \<and> set_ok idc_binding_valid idc_binding_key idc_bindings"
| "observation_token_valid (TokSerial authority idc_binding position) \<longleftrightarrow> id128_valid authority \<and> idc_binding_valid idc_binding"
| "observation_token_valid (TokComposite payload) \<longleftrightarrow> True"

fun observation_token_to_canon :: "observation_token \<Rightarrow> canon" where
  "observation_token_to_canon (TokGroup grp membership_generation payload) =
     c_obj [(''group'', id128_to_canon grp), (''kind'', CStr ''group''),
            (''membership_generation'', epoch_to_canon membership_generation),
            (''payload'', c_bytes payload)]"
| "observation_token_to_canon (TokCertified authority idc_bindings frontier) =
     c_obj [(''authority'', id128_to_canon authority), (''frontier'', epoch_to_canon frontier),
            (''idc_bindings'', fset_value idc_binding_to_canon idc_bindings),
            (''kind'', CStr ''certified'')]"
| "observation_token_to_canon (TokSerial authority idc_binding position) =
     c_obj [(''authority'', id128_to_canon authority),
            (''idc_binding'', idc_binding_to_canon idc_binding), (''kind'', CStr ''serial''),
            (''position'', epoch_to_canon position)]"
| "observation_token_to_canon (TokComposite payload) =
     c_obj [(''kind'', CStr ''composite''), (''payload'', c_bytes payload)]"

definition observation_token_from_canon :: "canon \<Rightarrow> observation_token core_result" where
  "observation_token_from_canon v =
     rbind (field_as v ''kind'' as_str) (\<lambda>tag.
       if tag = ''group'' then
         rbind (expect_fields v [''group'', ''kind'', ''membership_generation'', ''payload'']) (\<lambda>_.
         rbind (field_as v ''group'' id128_from_canon) (\<lambda>grp.
         rbind (field_as v ''membership_generation'' epoch_from_canon) (\<lambda>membership_generation.
         rbind (field_as v ''payload'' as_bytes) (\<lambda>payload.
         Inr (TokGroup grp membership_generation payload)))))
       else if tag = ''certified'' then
         rbind (expect_fields v [''authority'', ''frontier'', ''idc_bindings'', ''kind'']) (\<lambda>_.
         rbind (field_as v ''authority'' id128_from_canon) (\<lambda>authority.
         rbind (field_as v ''idc_bindings'' (decode_set idc_binding_key idc_binding_from_canon)) (\<lambda>idc_bindings.
         rbind (field_as v ''frontier'' epoch_from_canon) (\<lambda>frontier.
         Inr (TokCertified authority idc_bindings frontier)))))
       else if tag = ''serial'' then
         rbind (expect_fields v [''authority'', ''idc_binding'', ''kind'', ''position'']) (\<lambda>_.
         rbind (field_as v ''authority'' id128_from_canon) (\<lambda>authority.
         rbind (field_as v ''idc_binding'' idc_binding_from_canon) (\<lambda>idc_binding.
         rbind (field_as v ''position'' epoch_from_canon) (\<lambda>position.
         Inr (TokSerial authority idc_binding position)))))
       else if tag = ''composite'' then
         rbind (expect_fields v [''kind'', ''payload'']) (\<lambda>_.
         rbind (field_as v ''payload'' as_bytes) (\<lambda>payload.
         Inr (TokComposite payload)))
       else Inl UnsupportedSessionScope)"

interpretation c_observation_token: canonical observation_token_to_canon observation_token_from_canon observation_token_valid
proof unfold_locales
  fix x assume "observation_token_valid x"
  then show "observation_token_from_canon (observation_token_to_canon x) = Inr x"
    and "canon_wf (observation_token_to_canon x)" and "observation_token_to_canon x \<noteq> CNull"
    by (cases x; simp add: observation_token_from_canon_def codec_simps)+
next
  fix v x assume "canon_wf v" "observation_token_from_canon v = Inr x"
  then show "observation_token_valid x"
    by (auto simp: observation_token_from_canon_def rbind_eq_Inr_iff split: if_splits
        elim!: field_as_InrE intro: codec_valid)
qed

lemmas c_observation_token_rules [codec_simps] =
  c_observation_token.from_to c_observation_token.to_canon_wf c_observation_token.option_round_trip c_observation_token.option_wf

lemmas c_observation_token_valids [codec_valid] = c_observation_token.from_valid c_observation_token.option_valid

section \<open>Requests\<close>

record request_content =
  rq_request_key :: request_key
  rq_operation :: operation_ref
  rq_operation_hash :: hash256
  rq_schema_hash :: hash256
  rq_contract_hash :: hash256
  rq_arguments :: canon
  rq_read_contract :: read_contract
  rq_initial_session :: "observation_token option"

definition request_content_valid :: "request_content \<Rightarrow> bool" where
  "request_content_valid r \<longleftrightarrow>
     request_key_valid (rq_request_key r) \<and> hash256_valid (rq_operation_hash r) \<and>
     hash256_valid (rq_schema_hash r) \<and> hash256_valid (rq_contract_hash r) \<and>
     canon_wf (rq_arguments r) \<and> read_contract_valid (rq_read_contract r) \<and>
     pred_option observation_token_valid (rq_initial_session r)"

definition request_content_to_canon :: "request_content \<Rightarrow> canon" where
  "request_content_to_canon r =
     c_obj [(''arguments'', rq_arguments r),
            (''contract_hash'', hash256_to_canon (rq_contract_hash r)),
            (''initial_session'', c_option observation_token_to_canon (rq_initial_session r)),
            (''operation'', operation_ref_to_canon (rq_operation r)),
            (''operation_hash'', hash256_to_canon (rq_operation_hash r)),
            (''read_contract'', read_contract_to_canon (rq_read_contract r)),
            (''request_key'', request_key_to_canon (rq_request_key r)),
            (''schema_hash'', hash256_to_canon (rq_schema_hash r))]"

definition request_content_from_canon :: "canon \<Rightarrow> request_content core_result" where
  "request_content_from_canon v =
     rbind (expect_fields v [''arguments'', ''contract_hash'', ''initial_session'',
                             ''operation'', ''operation_hash'', ''read_contract'',
                             ''request_key'', ''schema_hash'']) (\<lambda>_.
     rbind (field_as v ''request_key'' request_key_from_canon) (\<lambda>request_key.
     rbind (field_as v ''operation'' operation_ref_from_canon) (\<lambda>oper.
     rbind (field_as v ''operation_hash'' hash256_from_canon) (\<lambda>operation_hash.
     rbind (field_as v ''schema_hash'' hash256_from_canon) (\<lambda>schema_hash.
     rbind (field_as v ''contract_hash'' hash256_from_canon) (\<lambda>contract_hash.
     rbind (field_as v ''arguments'' canon_id_from) (\<lambda>arguments.
     rbind (field_as v ''read_contract'' read_contract_from_canon) (\<lambda>read_contract.
     rbind (field_as v ''initial_session'' (option_from_canon observation_token_from_canon)) (\<lambda>initial_session.
     Inr \<lparr>rq_request_key = request_key, rq_operation = oper,
          rq_operation_hash = operation_hash, rq_schema_hash = schema_hash,
          rq_contract_hash = contract_hash, rq_arguments = arguments,
          rq_read_contract = read_contract, rq_initial_session = initial_session\<rparr>)))))))))"

interpretation c_request_content: canonical request_content_to_canon request_content_from_canon request_content_valid
proof unfold_locales
  fix r :: request_content assume "request_content_valid r"
  then show "request_content_from_canon (request_content_to_canon r) = Inr r"
    and "canon_wf (request_content_to_canon r)" and "request_content_to_canon r \<noteq> CNull"
    by (simp_all add: request_content_to_canon_def request_content_from_canon_def request_content_valid_def codec_simps)
next
  fix v and r :: request_content assume "canon_wf v" "request_content_from_canon v = Inr r"
  then show "request_content_valid r"
    by (auto simp: request_content_to_canon_def request_content_from_canon_def request_content_valid_def rbind_eq_Inr_iff Let_def elim!: field_as_InrE intro: codec_valid)
qed

lemmas c_request_content_rules [codec_simps] =
  c_request_content.from_to c_request_content.to_canon_wf c_request_content.option_round_trip c_request_content.option_wf

lemmas c_request_content_valids [codec_valid] = c_request_content.from_valid c_request_content.option_valid

definition request_hash :: "(bytes \<Rightarrow> hash256) \<Rightarrow> request_content \<Rightarrow> hash256" where
  "request_hash sha r = domain_hash sha ''astra.request.v1'' (typed_encode request_content_to_canon r)"

record route_hint =
  rh_home :: id128
  rh_epoch :: epoch64

definition route_hint_valid :: "route_hint \<Rightarrow> bool" where
  "route_hint_valid r \<longleftrightarrow>
     id128_valid (rh_home r)"

definition route_hint_to_canon :: "route_hint \<Rightarrow> canon" where
  "route_hint_to_canon r =
     c_obj [(''epoch'', epoch_to_canon (rh_epoch r)), (''home'', id128_to_canon (rh_home r))]"

definition route_hint_from_canon :: "canon \<Rightarrow> route_hint core_result" where
  "route_hint_from_canon v =
     rbind (expect_fields v [''epoch'', ''home'']) (\<lambda>_.
     rbind (field_as v ''home'' id128_from_canon) (\<lambda>home.
     rbind (field_as v ''epoch'' epoch_from_canon) (\<lambda>epoch.
     Inr \<lparr>rh_home = home, rh_epoch = epoch\<rparr>)))"

interpretation c_route_hint: canonical route_hint_to_canon route_hint_from_canon route_hint_valid
proof unfold_locales
  fix r :: route_hint assume "route_hint_valid r"
  then show "route_hint_from_canon (route_hint_to_canon r) = Inr r"
    and "canon_wf (route_hint_to_canon r)" and "route_hint_to_canon r \<noteq> CNull"
    by (simp_all add: route_hint_to_canon_def route_hint_from_canon_def route_hint_valid_def codec_simps)
next
  fix v and r :: route_hint assume "canon_wf v" "route_hint_from_canon v = Inr r"
  then show "route_hint_valid r"
    by (auto simp: route_hint_to_canon_def route_hint_from_canon_def route_hint_valid_def rbind_eq_Inr_iff Let_def elim!: field_as_InrE intro: codec_valid)
qed

lemmas c_route_hint_rules [codec_simps] =
  c_route_hint.from_to c_route_hint.to_canon_wf c_route_hint.option_round_trip c_route_hint.option_wf

lemmas c_route_hint_valids [codec_valid] = c_route_hint.from_valid c_route_hint.option_valid

record invoke =
  iv_content :: request_content
  iv_request_hash :: hash256
  iv_attempt_id :: id128
  iv_deadline_budget_ms :: u64
  iv_route_hint :: "route_hint option"
  iv_accepted_result_codecs :: "string list"

definition invoke_valid :: "invoke \<Rightarrow> bool" where
  "invoke_valid r \<longleftrightarrow>
     request_content_valid (iv_content r) \<and> hash256_valid (iv_request_hash r) \<and>
     id128_valid (iv_attempt_id r) \<and> pred_option route_hint_valid (iv_route_hint r) \<and>
     set_ok utf8_valid (\<lambda>x. x) (iv_accepted_result_codecs r)"

definition invoke_to_canon :: "invoke \<Rightarrow> canon" where
  "invoke_to_canon r =
     c_obj [(''accepted_result_codecs'', fset_value CStr (iv_accepted_result_codecs r)),
            (''attempt_id'', id128_to_canon (iv_attempt_id r)),
            (''content'', request_content_to_canon (iv_content r)),
            (''deadline_budget_ms'', c_uint (iv_deadline_budget_ms r)),
            (''request_hash'', hash256_to_canon (iv_request_hash r)),
            (''route_hint'', c_option route_hint_to_canon (iv_route_hint r))]"

definition invoke_from_canon :: "canon \<Rightarrow> invoke core_result" where
  "invoke_from_canon v =
     rbind (expect_fields v [''accepted_result_codecs'', ''attempt_id'', ''content'',
                             ''deadline_budget_ms'', ''request_hash'', ''route_hint'']) (\<lambda>_.
     rbind (field_as v ''content'' request_content_from_canon) (\<lambda>content.
     rbind (field_as v ''request_hash'' hash256_from_canon) (\<lambda>request_hash.
     rbind (field_as v ''attempt_id'' id128_from_canon) (\<lambda>attempt_id.
     rbind (field_as v ''deadline_budget_ms'' as_u64) (\<lambda>deadline_budget_ms.
     rbind (field_as v ''route_hint'' (option_from_canon route_hint_from_canon)) (\<lambda>route_hint.
     rbind (field_as v ''accepted_result_codecs'' (decode_set (\<lambda>x. x) as_str)) (\<lambda>accepted_result_codecs.
     Inr \<lparr>iv_content = content, iv_request_hash = request_hash, iv_attempt_id = attempt_id,
          iv_deadline_budget_ms = deadline_budget_ms, iv_route_hint = route_hint,
          iv_accepted_result_codecs = accepted_result_codecs\<rparr>)))))))"

interpretation c_invoke: canonical invoke_to_canon invoke_from_canon invoke_valid
proof unfold_locales
  fix r :: invoke assume "invoke_valid r"
  then show "invoke_from_canon (invoke_to_canon r) = Inr r"
    and "canon_wf (invoke_to_canon r)" and "invoke_to_canon r \<noteq> CNull"
    by (simp_all add: invoke_to_canon_def invoke_from_canon_def invoke_valid_def codec_simps)
next
  fix v and r :: invoke assume "canon_wf v" "invoke_from_canon v = Inr r"
  then show "invoke_valid r"
    by (auto simp: invoke_to_canon_def invoke_from_canon_def invoke_valid_def rbind_eq_Inr_iff Let_def elim!: field_as_InrE intro: codec_valid)
qed

lemmas c_invoke_rules [codec_simps] =
  c_invoke.from_to c_invoke.to_canon_wf c_invoke.option_round_trip c_invoke.option_wf

lemmas c_invoke_valids [codec_valid] = c_invoke.from_valid c_invoke.option_valid

definition verify_hash :: "(bytes \<Rightarrow> hash256) \<Rightarrow> invoke \<Rightarrow> unit core_result" where
  "verify_hash sha i =
     (if request_hash sha (iv_content i) \<noteq> iv_request_hash i then Inl RequestIdentityMismatch else Inr ())"

section \<open>Results and receipts\<close>

datatype outcome = OutCommitted | OutRejected

fun outcome_label :: "outcome \<Rightarrow> string" where
  "outcome_label OutCommitted = ''COMMITTED''"
| "outcome_label OutRejected = ''REJECTED''"

definition outcome_from_label :: "string \<Rightarrow> outcome core_result" where
  "outcome_from_label s =
     (if s = ''COMMITTED'' then Inr OutCommitted
      else if s = ''REJECTED'' then Inr OutRejected
      else Inl NonCanonicalEncoding)"

definition outcome_to_canon :: "outcome \<Rightarrow> canon" where
  "outcome_to_canon x = CStr (outcome_label x)"

definition outcome_from_canon :: "canon \<Rightarrow> outcome core_result" where
  "outcome_from_canon v = rbind (as_str v) outcome_from_label"

lemma outcome_rules [codec_simps]:
  "outcome_from_canon (outcome_to_canon x) = Inr x" "canon_wf (outcome_to_canon x)"
  by (cases x; simp add: outcome_to_canon_def outcome_from_canon_def outcome_from_label_def is_ascii_utf8)+

definition result_digest :: "(bytes \<Rightarrow> hash256) \<Rightarrow> string \<Rightarrow> hash256 \<Rightarrow> bytes \<Rightarrow> hash256" where
  "result_digest sha codec type_hash result_bytes =
     domain_hash sha ''astra.result.v1''
       (canon_encode (c_obj [(''exact_result_bytes'', c_bytes result_bytes), (''result_codec'', CStr codec),
                             (''result_type_hash'', hash256_to_canon type_hash)]))"

record accepted_result =
  ar_outcome :: outcome
  ar_result_codec :: string
  ar_result_type_hash :: hash256
  ar_exact_result_bytes :: bytes
  ar_result_digest :: hash256
  ar_commitments :: canon
  ar_accepted_observation :: "observation_token option"

definition accepted_result_new ::
  "(bytes \<Rightarrow> hash256) \<Rightarrow> outcome \<Rightarrow> string \<Rightarrow> hash256 \<Rightarrow> bytes \<Rightarrow> canon \<Rightarrow> observation_token option \<Rightarrow>
   accepted_result" where
  "accepted_result_new sha out codec type_hash result_bytes commitments obs =
     \<lparr>ar_outcome = out, ar_result_codec = codec, ar_result_type_hash = type_hash,
      ar_exact_result_bytes = result_bytes,
      ar_result_digest = result_digest sha codec type_hash result_bytes,
      ar_commitments = commitments, ar_accepted_observation = obs\<rparr>"

definition verify_digest :: "(bytes \<Rightarrow> hash256) \<Rightarrow> accepted_result \<Rightarrow> unit core_result" where
  "verify_digest sha r =
     (if result_digest sha (ar_result_codec r) (ar_result_type_hash r) (ar_exact_result_bytes r)
         \<noteq> ar_result_digest r
      then Inl Corruption else Inr ())"

definition accepted_result_valid :: "(bytes \<Rightarrow> hash256) \<Rightarrow> accepted_result \<Rightarrow> bool" where
  "accepted_result_valid sha r \<longleftrightarrow>
     utf8_valid (ar_result_codec r) \<and> hash256_valid (ar_result_type_hash r) \<and>
     hash256_valid (ar_result_digest r) \<and> canon_wf (ar_commitments r) \<and>
     pred_option observation_token_valid (ar_accepted_observation r) \<and>
     verify_digest sha r = Inr ()"

definition accepted_result_to_canon :: "accepted_result \<Rightarrow> canon" where
  "accepted_result_to_canon r =
     c_obj [(''accepted_observation'', c_option observation_token_to_canon (ar_accepted_observation r)),
            (''commitments'', ar_commitments r),
            (''exact_result_bytes'', c_bytes (ar_exact_result_bytes r)),
            (''outcome'', outcome_to_canon (ar_outcome r)),
            (''result_codec'', CStr (ar_result_codec r)),
            (''result_digest'', hash256_to_canon (ar_result_digest r)),
            (''result_type_hash'', hash256_to_canon (ar_result_type_hash r))]"

definition accepted_result_from_canon :: "(bytes \<Rightarrow> hash256) \<Rightarrow> canon \<Rightarrow> accepted_result core_result" where
  "accepted_result_from_canon sha v =
     rbind (expect_fields v [''accepted_observation'', ''commitments'', ''exact_result_bytes'',
                             ''outcome'', ''result_codec'', ''result_digest'',
                             ''result_type_hash'']) (\<lambda>_.
     rbind (field_as v ''outcome'' outcome_from_canon) (\<lambda>outcome.
     rbind (field_as v ''result_codec'' as_str) (\<lambda>result_codec.
     rbind (field_as v ''result_type_hash'' hash256_from_canon) (\<lambda>result_type_hash.
     rbind (field_as v ''exact_result_bytes'' as_bytes) (\<lambda>exact_result_bytes.
     rbind (field_as v ''result_digest'' hash256_from_canon) (\<lambda>result_digest.
     rbind (field_as v ''commitments'' canon_id_from) (\<lambda>commitments.
     rbind (field_as v ''accepted_observation'' (option_from_canon observation_token_from_canon)) (\<lambda>accepted_observation.
     let r = \<lparr>ar_outcome = outcome, ar_result_codec = result_codec,
          ar_result_type_hash = result_type_hash, ar_exact_result_bytes = exact_result_bytes,
          ar_result_digest = result_digest, ar_commitments = commitments,
          ar_accepted_observation = accepted_observation\<rparr>
     in rbind (verify_digest sha r) (\<lambda>_. Inr r)))))))))"

interpretation c_accepted_result: canonical accepted_result_to_canon "accepted_result_from_canon sha" "accepted_result_valid sha" for sha
proof unfold_locales
  fix r :: accepted_result assume "accepted_result_valid sha r"
  then show "accepted_result_from_canon sha (accepted_result_to_canon r) = Inr r"
    and "canon_wf (accepted_result_to_canon r)" and "accepted_result_to_canon r \<noteq> CNull"
    by (cases r; simp add: accepted_result_to_canon_def accepted_result_from_canon_def accepted_result_valid_def Let_def codec_simps)+
next
  fix v and r :: accepted_result assume "canon_wf v" "accepted_result_from_canon sha v = Inr r"
  then show "accepted_result_valid sha r"
    by (auto simp: accepted_result_to_canon_def accepted_result_from_canon_def accepted_result_valid_def rbind_eq_Inr_iff Let_def elim!: field_as_InrE intro: codec_valid)
qed

lemmas c_accepted_result_rules [codec_simps] =
  c_accepted_result.from_to c_accepted_result.to_canon_wf c_accepted_result.option_round_trip c_accepted_result.option_wf

lemmas c_accepted_result_valids [codec_valid] = c_accepted_result.from_valid c_accepted_result.option_valid

record policy_ref =
  po_name :: string
  po_policy_hash :: hash256

definition policy_ref_valid :: "policy_ref \<Rightarrow> bool" where
  "policy_ref_valid r \<longleftrightarrow>
     utf8_valid (po_name r) \<and> hash256_valid (po_policy_hash r)"

definition policy_ref_to_canon :: "policy_ref \<Rightarrow> canon" where
  "policy_ref_to_canon r =
     c_obj [(''name'', CStr (po_name r)), (''policy_hash'', hash256_to_canon (po_policy_hash r))]"

definition policy_ref_from_canon :: "canon \<Rightarrow> policy_ref core_result" where
  "policy_ref_from_canon v =
     rbind (expect_fields v [''name'', ''policy_hash'']) (\<lambda>_.
     rbind (field_as v ''name'' as_str) (\<lambda>nm.
     rbind (field_as v ''policy_hash'' hash256_from_canon) (\<lambda>policy_hash.
     Inr \<lparr>po_name = nm, po_policy_hash = policy_hash\<rparr>)))"

interpretation c_policy_ref: canonical policy_ref_to_canon policy_ref_from_canon policy_ref_valid
proof unfold_locales
  fix r :: policy_ref assume "policy_ref_valid r"
  then show "policy_ref_from_canon (policy_ref_to_canon r) = Inr r"
    and "canon_wf (policy_ref_to_canon r)" and "policy_ref_to_canon r \<noteq> CNull"
    by (simp_all add: policy_ref_to_canon_def policy_ref_from_canon_def policy_ref_valid_def codec_simps)
next
  fix v and r :: policy_ref assume "canon_wf v" "policy_ref_from_canon v = Inr r"
  then show "policy_ref_valid r"
    by (auto simp: policy_ref_to_canon_def policy_ref_from_canon_def policy_ref_valid_def rbind_eq_Inr_iff Let_def elim!: field_as_InrE intro: codec_valid)
qed

lemmas c_policy_ref_rules [codec_simps] =
  c_policy_ref.from_to c_policy_ref.to_canon_wf c_policy_ref.option_round_trip c_policy_ref.option_wf

lemmas c_policy_ref_valids [codec_valid] = c_policy_ref.from_valid c_policy_ref.option_valid

record final_receipt =
  fr_receipt_version :: u32
  fr_cluster_id :: id128
  fr_request_key :: request_key
  fr_request_hash :: hash256
  fr_txn_id :: txn_id
  fr_operation :: operation_ref
  fr_operation_hash :: hash256
  fr_schema_hash :: hash256
  fr_contract_hash :: hash256
  fr_plan :: plan_ref
  fr_idc_bindings :: "idc_binding list"
  fr_origin_ids :: "origin_id list"
  fr_outcome :: outcome
  fr_result_codec :: string
  fr_result_type_hash :: hash256
  fr_exact_result_bytes :: bytes
  fr_result_digest :: hash256
  fr_commitments :: canon
  fr_observation_token :: "observation_token option"
  fr_durability_policy :: policy_ref
  fr_durability_evidence :: "protocol_record_ref list"
  fr_decision_ref :: protocol_record_ref
  fr_completion_ref :: "protocol_record_ref option"

definition receipt_accepted_result :: "final_receipt \<Rightarrow> accepted_result" where
  "receipt_accepted_result r =
     \<lparr>ar_outcome = fr_outcome r, ar_result_codec = fr_result_codec r,
      ar_result_type_hash = fr_result_type_hash r, ar_exact_result_bytes = fr_exact_result_bytes r,
      ar_result_digest = fr_result_digest r, ar_commitments = fr_commitments r,
      ar_accepted_observation = fr_observation_token r\<rparr>"

definition final_receipt_verify :: "(bytes \<Rightarrow> hash256) \<Rightarrow> final_receipt \<Rightarrow> unit core_result" where
  "final_receipt_verify sha r =
     (if fr_receipt_version r \<noteq> 1 then Inl UnsupportedCodec else verify_digest sha (receipt_accepted_result r))"

definition final_receipt_valid :: "(bytes \<Rightarrow> hash256) \<Rightarrow> final_receipt \<Rightarrow> bool" where
  "final_receipt_valid sha r \<longleftrightarrow>
     id128_valid (fr_cluster_id r) \<and> request_key_valid (fr_request_key r) \<and>
     hash256_valid (fr_request_hash r) \<and> txn_id_valid (fr_txn_id r) \<and>
     hash256_valid (fr_operation_hash r) \<and> hash256_valid (fr_schema_hash r) \<and>
     hash256_valid (fr_contract_hash r) \<and> plan_ref_valid (fr_plan r) \<and>
     set_ok idc_binding_valid idc_binding_key (fr_idc_bindings r) \<and>
     set_ok origin_id_valid origin_id_key (fr_origin_ids r) \<and>
     utf8_valid (fr_result_codec r) \<and> hash256_valid (fr_result_type_hash r) \<and>
     hash256_valid (fr_result_digest r) \<and> canon_wf (fr_commitments r) \<and>
     pred_option observation_token_valid (fr_observation_token r) \<and>
     policy_ref_valid (fr_durability_policy r) \<and>
     set_ok protocol_record_ref_valid protocol_record_ref_key (fr_durability_evidence r) \<and>
     protocol_record_ref_valid (fr_decision_ref r) \<and>
     pred_option protocol_record_ref_valid (fr_completion_ref r) \<and>
     final_receipt_verify sha r = Inr ()"

definition final_receipt_to_canon :: "final_receipt \<Rightarrow> canon" where
  "final_receipt_to_canon r =
     c_obj [(''cluster_id'', id128_to_canon (fr_cluster_id r)),
            (''commitments'', fr_commitments r),
            (''completion_ref'', c_option protocol_record_ref_to_canon (fr_completion_ref r)),
            (''contract_hash'', hash256_to_canon (fr_contract_hash r)),
            (''decision_ref'', protocol_record_ref_to_canon (fr_decision_ref r)),
            (''durability_evidence'', fset_value protocol_record_ref_to_canon (fr_durability_evidence r)),
            (''durability_policy'', policy_ref_to_canon (fr_durability_policy r)),
            (''exact_result_bytes'', c_bytes (fr_exact_result_bytes r)),
            (''idc_bindings'', fset_value idc_binding_to_canon (fr_idc_bindings r)),
            (''operation'', operation_ref_to_canon (fr_operation r)),
            (''operation_hash'', hash256_to_canon (fr_operation_hash r)),
            (''observation_token'', c_option observation_token_to_canon (fr_observation_token r)),
            (''origin_ids'', fset_value origin_id_to_canon (fr_origin_ids r)),
            (''outcome'', outcome_to_canon (fr_outcome r)),
            (''plan'', plan_ref_to_canon (fr_plan r)),
            (''receipt_version'', c_u32 (fr_receipt_version r)),
            (''request_hash'', hash256_to_canon (fr_request_hash r)),
            (''request_key'', request_key_to_canon (fr_request_key r)),
            (''result_codec'', CStr (fr_result_codec r)),
            (''result_digest'', hash256_to_canon (fr_result_digest r)),
            (''result_type_hash'', hash256_to_canon (fr_result_type_hash r)),
            (''schema_hash'', hash256_to_canon (fr_schema_hash r)),
            (''txn_id'', txn_id_to_canon (fr_txn_id r))]"

definition final_receipt_from_canon :: "(bytes \<Rightarrow> hash256) \<Rightarrow> canon \<Rightarrow> final_receipt core_result" where
  "final_receipt_from_canon sha v =
     rbind (expect_fields v [''cluster_id'', ''commitments'', ''completion_ref'',
                             ''contract_hash'', ''decision_ref'', ''durability_evidence'',
                             ''durability_policy'', ''exact_result_bytes'', ''idc_bindings'',
                             ''operation'', ''operation_hash'', ''observation_token'',
                             ''origin_ids'', ''outcome'', ''plan'', ''receipt_version'',
                             ''request_hash'', ''request_key'', ''result_codec'',
                             ''result_digest'', ''result_type_hash'', ''schema_hash'',
                             ''txn_id'']) (\<lambda>_.
     rbind (field_as v ''receipt_version'' as_u32) (\<lambda>receipt_version.
     rbind (field_as v ''cluster_id'' id128_from_canon) (\<lambda>cluster_id.
     rbind (field_as v ''request_key'' request_key_from_canon) (\<lambda>request_key.
     rbind (field_as v ''request_hash'' hash256_from_canon) (\<lambda>request_hash.
     rbind (field_as v ''txn_id'' txn_id_from_canon) (\<lambda>txn_id.
     rbind (field_as v ''operation'' operation_ref_from_canon) (\<lambda>oper.
     rbind (field_as v ''operation_hash'' hash256_from_canon) (\<lambda>operation_hash.
     rbind (field_as v ''schema_hash'' hash256_from_canon) (\<lambda>schema_hash.
     rbind (field_as v ''contract_hash'' hash256_from_canon) (\<lambda>contract_hash.
     rbind (field_as v ''plan'' plan_ref_from_canon) (\<lambda>plan.
     rbind (field_as v ''idc_bindings'' (decode_set idc_binding_key idc_binding_from_canon)) (\<lambda>idc_bindings.
     rbind (field_as v ''origin_ids'' (decode_set origin_id_key origin_id_from_canon)) (\<lambda>origin_ids.
     rbind (field_as v ''outcome'' outcome_from_canon) (\<lambda>outcome.
     rbind (field_as v ''result_codec'' as_str) (\<lambda>result_codec.
     rbind (field_as v ''result_type_hash'' hash256_from_canon) (\<lambda>result_type_hash.
     rbind (field_as v ''exact_result_bytes'' as_bytes) (\<lambda>exact_result_bytes.
     rbind (field_as v ''result_digest'' hash256_from_canon) (\<lambda>result_digest.
     rbind (field_as v ''commitments'' canon_id_from) (\<lambda>commitments.
     rbind (field_as v ''observation_token'' (option_from_canon observation_token_from_canon)) (\<lambda>observation_token.
     rbind (field_as v ''durability_policy'' policy_ref_from_canon) (\<lambda>durability_policy.
     rbind (field_as v ''durability_evidence'' (decode_set protocol_record_ref_key protocol_record_ref_from_canon)) (\<lambda>durability_evidence.
     rbind (field_as v ''decision_ref'' protocol_record_ref_from_canon) (\<lambda>decision_ref.
     rbind (field_as v ''completion_ref'' (option_from_canon protocol_record_ref_from_canon)) (\<lambda>completion_ref.
     let r = \<lparr>fr_receipt_version = receipt_version, fr_cluster_id = cluster_id,
          fr_request_key = request_key, fr_request_hash = request_hash, fr_txn_id = txn_id,
          fr_operation = oper, fr_operation_hash = operation_hash,
          fr_schema_hash = schema_hash, fr_contract_hash = contract_hash, fr_plan = plan,
          fr_idc_bindings = idc_bindings, fr_origin_ids = origin_ids, fr_outcome = outcome,
          fr_result_codec = result_codec, fr_result_type_hash = result_type_hash,
          fr_exact_result_bytes = exact_result_bytes, fr_result_digest = result_digest,
          fr_commitments = commitments, fr_observation_token = observation_token,
          fr_durability_policy = durability_policy,
          fr_durability_evidence = durability_evidence, fr_decision_ref = decision_ref,
          fr_completion_ref = completion_ref\<rparr>
     in rbind (final_receipt_verify sha r) (\<lambda>_. Inr r)))))))))))))))))))))))))"

interpretation c_final_receipt: canonical final_receipt_to_canon "final_receipt_from_canon sha" "final_receipt_valid sha" for sha
proof unfold_locales
  fix r :: final_receipt assume "final_receipt_valid sha r"
  then show "final_receipt_from_canon sha (final_receipt_to_canon r) = Inr r"
    and "canon_wf (final_receipt_to_canon r)" and "final_receipt_to_canon r \<noteq> CNull"
    by (cases r; simp add: final_receipt_to_canon_def final_receipt_from_canon_def final_receipt_valid_def Let_def codec_simps)+
next
  fix v and r :: final_receipt assume "canon_wf v" "final_receipt_from_canon sha v = Inr r"
  then show "final_receipt_valid sha r"
    unfolding final_receipt_from_canon_def Let_def
    by - ((erule decode_bindE | erule (1) field_as_InrE)+; drule Inr_inject; hypsubst;
        unfold final_receipt_valid_def; intro conjI; (simp only: final_receipt.simps)?;
        (rule codec_valid, assumption, assumption | assumption | (simp; fail))?)
qed

lemmas c_final_receipt_rules [codec_simps] =
  c_final_receipt.from_to c_final_receipt.to_canon_wf c_final_receipt.option_round_trip c_final_receipt.option_wf

lemmas c_final_receipt_valids [codec_valid] = c_final_receipt.from_valid c_final_receipt.option_valid

definition receipt_digest :: "(bytes \<Rightarrow> hash256) \<Rightarrow> final_receipt \<Rightarrow> hash256" where
  "receipt_digest sha r = domain_hash sha ''astra.receipt.v1'' (typed_encode final_receipt_to_canon r)"

section \<open>Request bindings\<close>

datatype binding_state = BsBound | BsAdmitted | BsTerminal | BsResultExpired

fun binding_state_label :: "binding_state \<Rightarrow> string" where
  "binding_state_label BsBound = ''BOUND''"
| "binding_state_label BsAdmitted = ''ADMITTED''"
| "binding_state_label BsTerminal = ''TERMINAL''"
| "binding_state_label BsResultExpired = ''RESULT_EXPIRED''"

definition binding_state_from_label :: "string \<Rightarrow> binding_state core_result" where
  "binding_state_from_label s =
     (if s = ''BOUND'' then Inr BsBound
      else if s = ''ADMITTED'' then Inr BsAdmitted
      else if s = ''TERMINAL'' then Inr BsTerminal
      else if s = ''RESULT_EXPIRED'' then Inr BsResultExpired
      else Inl NonCanonicalEncoding)"

definition binding_state_to_canon :: "binding_state \<Rightarrow> canon" where
  "binding_state_to_canon x = CStr (binding_state_label x)"

definition binding_state_from_canon :: "canon \<Rightarrow> binding_state core_result" where
  "binding_state_from_canon v = rbind (as_str v) binding_state_from_label"

lemma binding_state_rules [codec_simps]:
  "binding_state_from_canon (binding_state_to_canon x) = Inr x" "canon_wf (binding_state_to_canon x)"
  by (cases x; simp add: binding_state_to_canon_def binding_state_from_canon_def binding_state_from_label_def is_ascii_utf8)+

definition binding_can_advance_to :: "binding_state \<Rightarrow> binding_state \<Rightarrow> bool" where
  "binding_can_advance_to s nxt \<longleftrightarrow>
     (s, nxt) \<in> {(BsBound, BsAdmitted), (BsBound, BsTerminal), (BsAdmitted, BsTerminal),
                 (BsTerminal, BsResultExpired)}"

record result_tombstone =
  tb_request_key :: request_key
  tb_request_hash :: hash256
  tb_txn_id :: txn_id
  tb_outcome :: outcome
  tb_receipt_digest :: hash256
  tb_decision_ref :: protocol_record_ref

definition result_tombstone_valid :: "result_tombstone \<Rightarrow> bool" where
  "result_tombstone_valid r \<longleftrightarrow>
     request_key_valid (tb_request_key r) \<and> hash256_valid (tb_request_hash r) \<and>
     txn_id_valid (tb_txn_id r) \<and> hash256_valid (tb_receipt_digest r) \<and>
     protocol_record_ref_valid (tb_decision_ref r)"

definition result_tombstone_to_canon :: "result_tombstone \<Rightarrow> canon" where
  "result_tombstone_to_canon r =
     c_obj [(''decision_ref'', protocol_record_ref_to_canon (tb_decision_ref r)),
            (''outcome'', outcome_to_canon (tb_outcome r)),
            (''receipt_digest'', hash256_to_canon (tb_receipt_digest r)),
            (''request_hash'', hash256_to_canon (tb_request_hash r)),
            (''request_key'', request_key_to_canon (tb_request_key r)),
            (''txn_id'', txn_id_to_canon (tb_txn_id r))]"

definition result_tombstone_from_canon :: "canon \<Rightarrow> result_tombstone core_result" where
  "result_tombstone_from_canon v =
     rbind (expect_fields v [''decision_ref'', ''outcome'', ''receipt_digest'',
                             ''request_hash'', ''request_key'', ''txn_id'']) (\<lambda>_.
     rbind (field_as v ''request_key'' request_key_from_canon) (\<lambda>request_key.
     rbind (field_as v ''request_hash'' hash256_from_canon) (\<lambda>request_hash.
     rbind (field_as v ''txn_id'' txn_id_from_canon) (\<lambda>txn_id.
     rbind (field_as v ''outcome'' outcome_from_canon) (\<lambda>outcome.
     rbind (field_as v ''receipt_digest'' hash256_from_canon) (\<lambda>receipt_digest.
     rbind (field_as v ''decision_ref'' protocol_record_ref_from_canon) (\<lambda>decision_ref.
     Inr \<lparr>tb_request_key = request_key, tb_request_hash = request_hash, tb_txn_id = txn_id,
          tb_outcome = outcome, tb_receipt_digest = receipt_digest,
          tb_decision_ref = decision_ref\<rparr>)))))))"

interpretation c_result_tombstone: canonical result_tombstone_to_canon result_tombstone_from_canon result_tombstone_valid
proof unfold_locales
  fix r :: result_tombstone assume "result_tombstone_valid r"
  then show "result_tombstone_from_canon (result_tombstone_to_canon r) = Inr r"
    and "canon_wf (result_tombstone_to_canon r)" and "result_tombstone_to_canon r \<noteq> CNull"
    by (simp_all add: result_tombstone_to_canon_def result_tombstone_from_canon_def result_tombstone_valid_def codec_simps)
next
  fix v and r :: result_tombstone assume "canon_wf v" "result_tombstone_from_canon v = Inr r"
  then show "result_tombstone_valid r"
    by (auto simp: result_tombstone_to_canon_def result_tombstone_from_canon_def result_tombstone_valid_def rbind_eq_Inr_iff Let_def elim!: field_as_InrE intro: codec_valid)
qed

lemmas c_result_tombstone_rules [codec_simps] =
  c_result_tombstone.from_to c_result_tombstone.to_canon_wf c_result_tombstone.option_round_trip c_result_tombstone.option_wf

lemmas c_result_tombstone_valids [codec_valid] = c_result_tombstone.from_valid c_result_tombstone.option_valid

record request_binding =
  rb_request_key :: request_key
  rb_request_hash :: hash256
  rb_txn_id :: txn_id
  rb_allocation_home :: id128
  rb_allocation_epoch :: epoch64
  rb_allocation_seq :: epoch64
  rb_record_revision :: epoch64
  rb_state :: binding_state
  rb_admitted_plan :: "plan_ref option"
  rb_decision_authority :: "protocol_record_ref option"
  rb_terminal_receipt :: "final_receipt option"
  rb_tombstone :: "result_tombstone option"

definition request_binding_verify :: "request_binding \<Rightarrow> unit core_result" where
  "request_binding_verify b =
     (if txn_id_new (rb_allocation_home b) (rb_allocation_epoch b) (rb_allocation_seq b) \<noteq> rb_txn_id b
      then Inl Corruption
      else if rb_state b = BsTerminal \<and> rb_terminal_receipt b = None then Inl Corruption
      else if rb_state b = BsResultExpired \<and> rb_tombstone b = None then Inl Corruption
      else if rb_state b \<in> {BsBound, BsAdmitted} \<and> rb_terminal_receipt b \<noteq> None then Inl Corruption
      else Inr ())"

definition request_binding_valid :: "(bytes \<Rightarrow> hash256) \<Rightarrow> request_binding \<Rightarrow> bool" where
  "request_binding_valid sha r \<longleftrightarrow>
     request_key_valid (rb_request_key r) \<and> hash256_valid (rb_request_hash r) \<and>
     txn_id_valid (rb_txn_id r) \<and> id128_valid (rb_allocation_home r) \<and>
     pred_option plan_ref_valid (rb_admitted_plan r) \<and>
     pred_option protocol_record_ref_valid (rb_decision_authority r) \<and>
     pred_option (final_receipt_valid sha) (rb_terminal_receipt r) \<and>
     pred_option result_tombstone_valid (rb_tombstone r) \<and>
     request_binding_verify r = Inr ()"

definition request_binding_to_canon :: "request_binding \<Rightarrow> canon" where
  "request_binding_to_canon r =
     c_obj [(''admitted_plan'', c_option plan_ref_to_canon (rb_admitted_plan r)),
            (''allocation_epoch'', epoch_to_canon (rb_allocation_epoch r)),
            (''allocation_home'', id128_to_canon (rb_allocation_home r)),
            (''allocation_seq'', epoch_to_canon (rb_allocation_seq r)),
            (''decision_authority'', c_option protocol_record_ref_to_canon (rb_decision_authority r)),
            (''record_revision'', epoch_to_canon (rb_record_revision r)),
            (''request_hash'', hash256_to_canon (rb_request_hash r)),
            (''request_key'', request_key_to_canon (rb_request_key r)),
            (''state'', binding_state_to_canon (rb_state r)),
            (''terminal_receipt'', c_option final_receipt_to_canon (rb_terminal_receipt r)),
            (''tombstone'', c_option result_tombstone_to_canon (rb_tombstone r)),
            (''txn_id'', txn_id_to_canon (rb_txn_id r))]"

definition request_binding_from_canon :: "(bytes \<Rightarrow> hash256) \<Rightarrow> canon \<Rightarrow> request_binding core_result" where
  "request_binding_from_canon sha v =
     rbind (expect_fields v [''admitted_plan'', ''allocation_epoch'', ''allocation_home'',
                             ''allocation_seq'', ''decision_authority'', ''record_revision'',
                             ''request_hash'', ''request_key'', ''state'',
                             ''terminal_receipt'', ''tombstone'', ''txn_id'']) (\<lambda>_.
     rbind (field_as v ''request_key'' request_key_from_canon) (\<lambda>request_key.
     rbind (field_as v ''request_hash'' hash256_from_canon) (\<lambda>request_hash.
     rbind (field_as v ''txn_id'' txn_id_from_canon) (\<lambda>txn_id.
     rbind (field_as v ''allocation_home'' id128_from_canon) (\<lambda>allocation_home.
     rbind (field_as v ''allocation_epoch'' epoch_from_canon) (\<lambda>allocation_epoch.
     rbind (field_as v ''allocation_seq'' epoch_from_canon) (\<lambda>allocation_seq.
     rbind (field_as v ''record_revision'' epoch_from_canon) (\<lambda>record_revision.
     rbind (field_as v ''state'' binding_state_from_canon) (\<lambda>st.
     rbind (field_as v ''admitted_plan'' (option_from_canon plan_ref_from_canon)) (\<lambda>admitted_plan.
     rbind (field_as v ''decision_authority'' (option_from_canon protocol_record_ref_from_canon)) (\<lambda>decision_authority.
     rbind (field_as v ''terminal_receipt'' (option_from_canon (final_receipt_from_canon sha))) (\<lambda>terminal_receipt.
     rbind (field_as v ''tombstone'' (option_from_canon result_tombstone_from_canon)) (\<lambda>tombstone.
     let r = \<lparr>rb_request_key = request_key, rb_request_hash = request_hash, rb_txn_id = txn_id,
          rb_allocation_home = allocation_home, rb_allocation_epoch = allocation_epoch,
          rb_allocation_seq = allocation_seq, rb_record_revision = record_revision,
          rb_state = st, rb_admitted_plan = admitted_plan,
          rb_decision_authority = decision_authority, rb_terminal_receipt = terminal_receipt,
          rb_tombstone = tombstone\<rparr>
     in rbind (request_binding_verify r) (\<lambda>_. Inr r))))))))))))))"

interpretation c_request_binding: canonical request_binding_to_canon "request_binding_from_canon sha" "request_binding_valid sha" for sha
proof unfold_locales
  fix r :: request_binding assume "request_binding_valid sha r"
  then show "request_binding_from_canon sha (request_binding_to_canon r) = Inr r"
    and "canon_wf (request_binding_to_canon r)" and "request_binding_to_canon r \<noteq> CNull"
    by (cases r; simp add: request_binding_to_canon_def request_binding_from_canon_def request_binding_valid_def Let_def codec_simps
        c_final_receipt.to_canon_wf [where sha = sha] c_final_receipt.option_wf [where sha = sha])+
next
  fix v and r :: request_binding assume "canon_wf v" "request_binding_from_canon sha v = Inr r"
  then show "request_binding_valid sha r"
    by (auto simp: request_binding_to_canon_def request_binding_from_canon_def request_binding_valid_def rbind_eq_Inr_iff Let_def elim!: field_as_InrE intro: codec_valid)
qed

lemmas c_request_binding_rules [codec_simps] =
  c_request_binding.from_to c_request_binding.to_canon_wf c_request_binding.option_round_trip c_request_binding.option_wf

lemmas c_request_binding_valids [codec_valid] = c_request_binding.from_valid c_request_binding.option_valid

section \<open>Public replies\<close>

record refusal =
  rf_v_code :: string
  rf_v_detail :: string
  rf_v_possibly_admitted :: bool

definition refusal_valid :: "refusal \<Rightarrow> bool" where
  "refusal_valid r \<longleftrightarrow>
     utf8_valid (rf_v_code r) \<and> utf8_valid (rf_v_detail r)"

definition refusal_to_canon :: "refusal \<Rightarrow> canon" where
  "refusal_to_canon r =
     c_obj [(''code'', CStr (rf_v_code r)), (''detail'', CStr (rf_v_detail r)),
            (''possibly_admitted'', CBool (rf_v_possibly_admitted r))]"

definition refusal_from_canon :: "canon \<Rightarrow> refusal core_result" where
  "refusal_from_canon v =
     rbind (expect_fields v [''code'', ''detail'', ''possibly_admitted'']) (\<lambda>_.
     rbind (field_as v ''code'' as_str) (\<lambda>code.
     rbind (field_as v ''detail'' as_str) (\<lambda>detail.
     rbind (field_as v ''possibly_admitted'' as_bool) (\<lambda>possibly_admitted.
     Inr \<lparr>rf_v_code = code, rf_v_detail = detail, rf_v_possibly_admitted = possibly_admitted\<rparr>))))"

interpretation c_refusal: canonical refusal_to_canon refusal_from_canon refusal_valid
proof unfold_locales
  fix r :: refusal assume "refusal_valid r"
  then show "refusal_from_canon (refusal_to_canon r) = Inr r"
    and "canon_wf (refusal_to_canon r)" and "refusal_to_canon r \<noteq> CNull"
    by (simp_all add: refusal_to_canon_def refusal_from_canon_def refusal_valid_def codec_simps)
next
  fix v and r :: refusal assume "canon_wf v" "refusal_from_canon v = Inr r"
  then show "refusal_valid r"
    by (auto simp: refusal_to_canon_def refusal_from_canon_def refusal_valid_def rbind_eq_Inr_iff Let_def elim!: field_as_InrE intro: codec_valid)
qed

lemmas c_refusal_rules [codec_simps] =
  c_refusal.from_to c_refusal.to_canon_wf c_refusal.option_round_trip c_refusal.option_wf

lemmas c_refusal_valids [codec_valid] = c_refusal.from_valid c_refusal.option_valid

record resolution_hint =
  hi_request_key :: request_key
  hi_request_hash :: hash256
  hi_txn_id :: "txn_id option"
  hi_resolver :: "route_hint option"

definition resolution_hint_valid :: "resolution_hint \<Rightarrow> bool" where
  "resolution_hint_valid r \<longleftrightarrow>
     request_key_valid (hi_request_key r) \<and> hash256_valid (hi_request_hash r) \<and>
     pred_option txn_id_valid (hi_txn_id r) \<and> pred_option route_hint_valid (hi_resolver r)"

definition resolution_hint_to_canon :: "resolution_hint \<Rightarrow> canon" where
  "resolution_hint_to_canon r =
     c_obj [(''request_hash'', hash256_to_canon (hi_request_hash r)),
            (''request_key'', request_key_to_canon (hi_request_key r)),
            (''resolver'', c_option route_hint_to_canon (hi_resolver r)),
            (''txn_id'', c_option txn_id_to_canon (hi_txn_id r))]"

definition resolution_hint_from_canon :: "canon \<Rightarrow> resolution_hint core_result" where
  "resolution_hint_from_canon v =
     rbind (expect_fields v [''request_hash'', ''request_key'', ''resolver'', ''txn_id'']) (\<lambda>_.
     rbind (field_as v ''request_key'' request_key_from_canon) (\<lambda>request_key.
     rbind (field_as v ''request_hash'' hash256_from_canon) (\<lambda>request_hash.
     rbind (field_as v ''txn_id'' (option_from_canon txn_id_from_canon)) (\<lambda>txn_id.
     rbind (field_as v ''resolver'' (option_from_canon route_hint_from_canon)) (\<lambda>resolver.
     Inr \<lparr>hi_request_key = request_key, hi_request_hash = request_hash, hi_txn_id = txn_id,
          hi_resolver = resolver\<rparr>)))))"

interpretation c_resolution_hint: canonical resolution_hint_to_canon resolution_hint_from_canon resolution_hint_valid
proof unfold_locales
  fix r :: resolution_hint assume "resolution_hint_valid r"
  then show "resolution_hint_from_canon (resolution_hint_to_canon r) = Inr r"
    and "canon_wf (resolution_hint_to_canon r)" and "resolution_hint_to_canon r \<noteq> CNull"
    by (simp_all add: resolution_hint_to_canon_def resolution_hint_from_canon_def resolution_hint_valid_def codec_simps)
next
  fix v and r :: resolution_hint assume "canon_wf v" "resolution_hint_from_canon v = Inr r"
  then show "resolution_hint_valid r"
    by (auto simp: resolution_hint_to_canon_def resolution_hint_from_canon_def resolution_hint_valid_def rbind_eq_Inr_iff Let_def elim!: field_as_InrE intro: codec_valid)
qed

lemmas c_resolution_hint_rules [codec_simps] =
  c_resolution_hint.from_to c_resolution_hint.to_canon_wf c_resolution_hint.option_round_trip c_resolution_hint.option_wf

lemmas c_resolution_hint_valids [codec_valid] = c_resolution_hint.from_valid c_resolution_hint.option_valid

datatype client_reply =
    RepCommitted final_receipt
  | RepRejected final_receipt
  | RepUnavailable refusal
  | RepOutcomeUnknown resolution_hint
  | RepIdentityMismatch
  | RepResultExpired result_tombstone
  | RepIdentityExpired id128 protocol_record_ref
  | RepProtocolError string string

fun client_reply_valid :: "(bytes \<Rightarrow> hash256) \<Rightarrow> client_reply \<Rightarrow> bool" where
  "client_reply_valid sha (RepCommitted receipt) \<longleftrightarrow> final_receipt_valid sha receipt"
| "client_reply_valid sha (RepRejected receipt) \<longleftrightarrow> final_receipt_valid sha receipt"
| "client_reply_valid sha (RepUnavailable refusal) \<longleftrightarrow> refusal_valid refusal"
| "client_reply_valid sha (RepOutcomeUnknown hint) \<longleftrightarrow> resolution_hint_valid hint"
| "client_reply_valid sha RepIdentityMismatch \<longleftrightarrow> True"
| "client_reply_valid sha (RepResultExpired tombstone) \<longleftrightarrow> result_tombstone_valid tombstone"
| "client_reply_valid sha (RepIdentityExpired namespace retirement_ref) \<longleftrightarrow> id128_valid namespace \<and> protocol_record_ref_valid retirement_ref"
| "client_reply_valid sha (RepProtocolError code detail) \<longleftrightarrow> utf8_valid code \<and> utf8_valid detail"

fun client_reply_to_canon :: "client_reply \<Rightarrow> canon" where
  "client_reply_to_canon (RepCommitted receipt) =
     c_obj [(''kind'', CStr ''Committed''), (''receipt'', final_receipt_to_canon receipt)]"
| "client_reply_to_canon (RepRejected receipt) =
     c_obj [(''kind'', CStr ''Rejected''), (''receipt'', final_receipt_to_canon receipt)]"
| "client_reply_to_canon (RepUnavailable refusal) =
     c_obj [(''kind'', CStr ''Unavailable''), (''refusal'', refusal_to_canon refusal)]"
| "client_reply_to_canon (RepOutcomeUnknown hint) =
     c_obj [(''hint'', resolution_hint_to_canon hint), (''kind'', CStr ''OutcomeUnknown'')]"
| "client_reply_to_canon RepIdentityMismatch =
     c_obj [(''kind'', CStr ''RequestIdentityMismatch'')]"
| "client_reply_to_canon (RepResultExpired tombstone) =
     c_obj [(''kind'', CStr ''ResultExpired''),
            (''tombstone'', result_tombstone_to_canon tombstone)]"
| "client_reply_to_canon (RepIdentityExpired namespace retirement_ref) =
     c_obj [(''kind'', CStr ''IdentityExpired''), (''namespace'', id128_to_canon namespace),
            (''retirement_ref'', protocol_record_ref_to_canon retirement_ref)]"
| "client_reply_to_canon (RepProtocolError code detail) =
     c_obj [(''code'', CStr code), (''detail'', CStr detail), (''kind'', CStr ''ProtocolError'')]"

definition client_reply_from_canon :: "(bytes \<Rightarrow> hash256) \<Rightarrow> canon \<Rightarrow> client_reply core_result" where
  "client_reply_from_canon sha v =
     rbind (field_as v ''kind'' as_str) (\<lambda>tag.
       if tag = ''Committed'' then
         rbind (expect_fields v [''kind'', ''receipt'']) (\<lambda>_.
         rbind (field_as v ''receipt'' (final_receipt_from_canon sha)) (\<lambda>receipt.
         Inr (RepCommitted receipt)))
       else if tag = ''Rejected'' then
         rbind (expect_fields v [''kind'', ''receipt'']) (\<lambda>_.
         rbind (field_as v ''receipt'' (final_receipt_from_canon sha)) (\<lambda>receipt.
         Inr (RepRejected receipt)))
       else if tag = ''Unavailable'' then
         rbind (expect_fields v [''kind'', ''refusal'']) (\<lambda>_.
         rbind (field_as v ''refusal'' refusal_from_canon) (\<lambda>refusal.
         Inr (RepUnavailable refusal)))
       else if tag = ''OutcomeUnknown'' then
         rbind (expect_fields v [''hint'', ''kind'']) (\<lambda>_.
         rbind (field_as v ''hint'' resolution_hint_from_canon) (\<lambda>hint.
         Inr (RepOutcomeUnknown hint)))
       else if tag = ''RequestIdentityMismatch'' then
         rbind (expect_fields v [''kind'']) (\<lambda>_.
         Inr RepIdentityMismatch)
       else if tag = ''ResultExpired'' then
         rbind (expect_fields v [''kind'', ''tombstone'']) (\<lambda>_.
         rbind (field_as v ''tombstone'' result_tombstone_from_canon) (\<lambda>tombstone.
         Inr (RepResultExpired tombstone)))
       else if tag = ''IdentityExpired'' then
         rbind (expect_fields v [''kind'', ''namespace'', ''retirement_ref'']) (\<lambda>_.
         rbind (field_as v ''namespace'' id128_from_canon) (\<lambda>namespace.
         rbind (field_as v ''retirement_ref'' protocol_record_ref_from_canon) (\<lambda>retirement_ref.
         Inr (RepIdentityExpired namespace retirement_ref))))
       else if tag = ''ProtocolError'' then
         rbind (expect_fields v [''code'', ''detail'', ''kind'']) (\<lambda>_.
         rbind (field_as v ''code'' as_str) (\<lambda>code.
         rbind (field_as v ''detail'' as_str) (\<lambda>detail.
         Inr (RepProtocolError code detail))))
       else Inl NonCanonicalEncoding)"

interpretation c_client_reply: canonical client_reply_to_canon "client_reply_from_canon sha" "client_reply_valid sha" for sha
proof unfold_locales
  fix x assume "client_reply_valid sha x"
  then show "client_reply_from_canon sha (client_reply_to_canon x) = Inr x"
    and "canon_wf (client_reply_to_canon x)" and "client_reply_to_canon x \<noteq> CNull"
    by (cases x; simp add: client_reply_from_canon_def codec_simps
      c_final_receipt.to_canon_wf [where sha = sha])+
next
  fix v x assume "canon_wf v" "client_reply_from_canon sha v = Inr x"
  then show "client_reply_valid sha x"
    by (auto simp: client_reply_from_canon_def rbind_eq_Inr_iff split: if_splits
        elim!: field_as_InrE intro: codec_valid)
qed

lemmas c_client_reply_rules [codec_simps] =
  c_client_reply.from_to c_client_reply.to_canon_wf c_client_reply.option_round_trip c_client_reply.option_wf

lemmas c_client_reply_valids [codec_valid] = c_client_reply.from_valid c_client_reply.option_valid

definition retry_same_identity :: "client_reply \<Rightarrow> bool" where
  "retry_same_identity r \<longleftrightarrow> (case r of RepUnavailable _ \<Rightarrow> True | RepOutcomeUnknown _ \<Rightarrow> True | _ \<Rightarrow> False)"

definition reply_receipt :: "client_reply \<Rightarrow> final_receipt option" where
  "reply_receipt r = (case r of RepCommitted x \<Rightarrow> Some x | RepRejected x \<Rightarrow> Some x | _ \<Rightarrow> None)"

record resolve_request =
  rs_request_key :: request_key
  rs_expected_request_hash :: hash256

definition resolve_request_valid :: "resolve_request \<Rightarrow> bool" where
  "resolve_request_valid r \<longleftrightarrow>
     request_key_valid (rs_request_key r) \<and> hash256_valid (rs_expected_request_hash r)"

definition resolve_request_to_canon :: "resolve_request \<Rightarrow> canon" where
  "resolve_request_to_canon r =
     c_obj [(''expected_request_hash'', hash256_to_canon (rs_expected_request_hash r)),
            (''request_key'', request_key_to_canon (rs_request_key r))]"

definition resolve_request_from_canon :: "canon \<Rightarrow> resolve_request core_result" where
  "resolve_request_from_canon v =
     rbind (expect_fields v [''expected_request_hash'', ''request_key'']) (\<lambda>_.
     rbind (field_as v ''request_key'' request_key_from_canon) (\<lambda>request_key.
     rbind (field_as v ''expected_request_hash'' hash256_from_canon) (\<lambda>expected_request_hash.
     Inr \<lparr>rs_request_key = request_key, rs_expected_request_hash = expected_request_hash\<rparr>)))"

interpretation c_resolve_request: canonical resolve_request_to_canon resolve_request_from_canon resolve_request_valid
proof unfold_locales
  fix r :: resolve_request assume "resolve_request_valid r"
  then show "resolve_request_from_canon (resolve_request_to_canon r) = Inr r"
    and "canon_wf (resolve_request_to_canon r)" and "resolve_request_to_canon r \<noteq> CNull"
    by (simp_all add: resolve_request_to_canon_def resolve_request_from_canon_def resolve_request_valid_def codec_simps)
next
  fix v and r :: resolve_request assume "canon_wf v" "resolve_request_from_canon v = Inr r"
  then show "resolve_request_valid r"
    by (auto simp: resolve_request_to_canon_def resolve_request_from_canon_def resolve_request_valid_def rbind_eq_Inr_iff Let_def elim!: field_as_InrE intro: codec_valid)
qed

lemmas c_resolve_request_rules [codec_simps] =
  c_resolve_request.from_to c_resolve_request.to_canon_wf c_resolve_request.option_round_trip c_resolve_request.option_wf

lemmas c_resolve_request_valids [codec_valid] = c_resolve_request.from_valid c_resolve_request.option_valid

datatype resolve_reply =
    ResTerminal client_reply
  | ResPending txn_id string plan_ref protocol_record_ref
  | ResAbsentAtBarrier epoch64 id128 epoch64 epoch64
  | ResUnavailable refusal

fun resolve_reply_valid :: "(bytes \<Rightarrow> hash256) \<Rightarrow> resolve_reply \<Rightarrow> bool" where
  "resolve_reply_valid sha (ResTerminal reply) \<longleftrightarrow> client_reply_valid sha reply"
| "resolve_reply_valid sha (ResPending txn_id phase original_plan resolver_ref) \<longleftrightarrow> txn_id_valid txn_id \<and> utf8_valid phase \<and> plan_ref_valid original_plan \<and> protocol_record_ref_valid resolver_ref"
| "resolve_reply_valid sha (ResAbsentAtBarrier catalog_generation home home_epoch record_revision) \<longleftrightarrow> id128_valid home"
| "resolve_reply_valid sha (ResUnavailable refusal) \<longleftrightarrow> refusal_valid refusal"

fun resolve_reply_to_canon :: "resolve_reply \<Rightarrow> canon" where
  "resolve_reply_to_canon (ResTerminal reply) =
     c_obj [(''kind'', CStr ''Terminal''), (''reply'', client_reply_to_canon reply)]"
| "resolve_reply_to_canon (ResPending txn_id phase original_plan resolver_ref) =
     c_obj [(''kind'', CStr ''Pending''), (''original_plan'', plan_ref_to_canon original_plan),
            (''phase'', CStr phase),
            (''resolver_ref'', protocol_record_ref_to_canon resolver_ref),
            (''txn_id'', txn_id_to_canon txn_id)]"
| "resolve_reply_to_canon (ResAbsentAtBarrier catalog_generation home home_epoch record_revision) =
     c_obj [(''catalog_generation'', epoch_to_canon catalog_generation),
            (''home'', id128_to_canon home), (''home_epoch'', epoch_to_canon home_epoch),
            (''kind'', CStr ''AbsentAtBarrier''),
            (''record_revision'', epoch_to_canon record_revision)]"
| "resolve_reply_to_canon (ResUnavailable refusal) =
     c_obj [(''kind'', CStr ''Unavailable''), (''refusal'', refusal_to_canon refusal)]"

definition resolve_reply_from_canon :: "(bytes \<Rightarrow> hash256) \<Rightarrow> canon \<Rightarrow> resolve_reply core_result" where
  "resolve_reply_from_canon sha v =
     rbind (field_as v ''kind'' as_str) (\<lambda>tag.
       if tag = ''Terminal'' then
         rbind (field_as v ''reply'' (client_reply_from_canon sha)) (\<lambda>reply.
         Inr (ResTerminal reply))
       else if tag = ''Pending'' then
         rbind (field_as v ''txn_id'' txn_id_from_canon) (\<lambda>txn_id.
         rbind (field_as v ''phase'' as_str) (\<lambda>phase.
         rbind (field_as v ''original_plan'' plan_ref_from_canon) (\<lambda>original_plan.
         rbind (field_as v ''resolver_ref'' protocol_record_ref_from_canon) (\<lambda>resolver_ref.
         Inr (ResPending txn_id phase original_plan resolver_ref)))))
       else if tag = ''AbsentAtBarrier'' then
         rbind (field_as v ''catalog_generation'' epoch_from_canon) (\<lambda>catalog_generation.
         rbind (field_as v ''home'' id128_from_canon) (\<lambda>home.
         rbind (field_as v ''home_epoch'' epoch_from_canon) (\<lambda>home_epoch.
         rbind (field_as v ''record_revision'' epoch_from_canon) (\<lambda>record_revision.
         Inr (ResAbsentAtBarrier catalog_generation home home_epoch record_revision)))))
       else if tag = ''Unavailable'' then
         rbind (field_as v ''refusal'' refusal_from_canon) (\<lambda>refusal.
         Inr (ResUnavailable refusal))
       else Inl NonCanonicalEncoding)"

interpretation c_resolve_reply: canonical resolve_reply_to_canon "resolve_reply_from_canon sha" "resolve_reply_valid sha" for sha
proof unfold_locales
  fix x assume "resolve_reply_valid sha x"
  then show "resolve_reply_from_canon sha (resolve_reply_to_canon x) = Inr x"
    and "canon_wf (resolve_reply_to_canon x)" and "resolve_reply_to_canon x \<noteq> CNull"
    by (cases x; simp add: resolve_reply_from_canon_def codec_simps
      c_client_reply.to_canon_wf [where sha = sha])+
next
  fix v x assume "canon_wf v" "resolve_reply_from_canon sha v = Inr x"
  then show "resolve_reply_valid sha x"
    by (auto simp: resolve_reply_from_canon_def rbind_eq_Inr_iff split: if_splits
        elim!: field_as_InrE intro: codec_valid)
qed

lemmas c_resolve_reply_rules [codec_simps] =
  c_resolve_reply.from_to c_resolve_reply.to_canon_wf c_resolve_reply.option_round_trip c_resolve_reply.option_wf

lemmas c_resolve_reply_valids [codec_valid] = c_resolve_reply.from_valid c_resolve_reply.option_valid

section \<open>The record registry\<close>

definition REGISTERED_KINDS :: "(string \<times> u32 \<times> string) list" where
  "REGISTERED_KINDS =
     [(''request_content'', 1, ''SPEC-012''), (''invoke'', 1, ''SPEC-012''),
      (''client_reply'', 1, ''SPEC-012''), (''resolve_request'', 1, ''SPEC-012''),
      (''resolve_reply'', 1, ''SPEC-012''), (''request_binding'', 1, ''SPEC-012''),
      (''accepted_result'', 1, ''SPEC-012''), (''final_receipt'', 1, ''SPEC-012''),
      (''result_tombstone'', 1, ''SPEC-012''), (''observation_token'', 1, ''SPEC-012''),
      (''read_contract'', 1, ''SPEC-012''), (''hello'', 1, ''SPEC-012''),
      (''hello_ack'', 1, ''SPEC-012''), (''snapshot_manifest'', 1, ''SPEC-012''),
      (''snapshot_chunk'', 1, ''SPEC-012''), (''codec_manifest'', 1, ''SPEC-012''),
      (''compiled_batch'', 1, ''SPEC-002''), (''protocol_only_batch'', 1, ''SPEC-002''),
      (''txn_status'', 1, ''SPEC-002''), (''local_decision'', 1, ''SPEC-002''),
      (''namespace_retirement'', 1, ''SPEC-011''), (''authority_grant'', 1, ''SPEC-011''),
      (''request_home_state'', 1, ''SPEC-012''), (''catalog_command'', 1, ''SPEC-011''),
      (''catalog_commit'', 1, ''SPEC-011''), (''migration_record'', 1, ''SPEC-009''),
      (''close_certificate'', 1, ''SPEC-009''), (''semantic_commit'', 1, ''SPEC-005''),
      (''causal_context'', 1, ''SPEC-005''), (''session_token'', 1, ''SPEC-005''),
      (''holder_state'', 1, ''SPEC-006''), (''transfer_terms'', 1, ''SPEC-006''),
      (''transfer_decision'', 1, ''SPEC-006''), (''txn_begin'', 1, ''SPEC-008''),
      (''prepare_vote'', 1, ''SPEC-008''), (''decision_certificate'', 1, ''SPEC-008''),
      (''installed'', 1, ''SPEC-008''), (''publication_certificate'', 1, ''SPEC-008''),
      (''publish_seen'', 1, ''SPEC-008''), (''completion_certificate'', 1, ''SPEC-008'')]"

definition is_registered :: "string \<Rightarrow> u32 \<Rightarrow> bool" where
  "is_registered kind version \<longleftrightarrow> list_ex (\<lambda>(k, v, _). k = kind \<and> v = version) REGISTERED_KINDS"

record canonical_record =
  cr_record_kind :: string
  cr_record_version :: u32
  cr_body :: canon

definition canonical_record_valid :: "canonical_record \<Rightarrow> bool" where
  "canonical_record_valid r \<longleftrightarrow>
     utf8_valid (cr_record_kind r) \<and> canon_wf (cr_body r)"

definition canonical_record_to_canon :: "canonical_record \<Rightarrow> canon" where
  "canonical_record_to_canon r =
     c_obj [(''body'', cr_body r), (''record_kind'', CStr (cr_record_kind r)),
            (''record_version'', c_u32 (cr_record_version r))]"

definition canonical_record_from_canon :: "canon \<Rightarrow> canonical_record core_result" where
  "canonical_record_from_canon v =
     rbind (expect_fields v [''body'', ''record_kind'', ''record_version'']) (\<lambda>_.
     rbind (field_as v ''record_kind'' as_str) (\<lambda>record_kind.
     rbind (field_as v ''record_version'' as_u32) (\<lambda>record_version.
     rbind (field_as v ''body'' canon_id_from) (\<lambda>body.
     Inr \<lparr>cr_record_kind = record_kind, cr_record_version = record_version, cr_body = body\<rparr>))))"

interpretation c_canonical_record: canonical canonical_record_to_canon canonical_record_from_canon canonical_record_valid
proof unfold_locales
  fix r :: canonical_record assume "canonical_record_valid r"
  then show "canonical_record_from_canon (canonical_record_to_canon r) = Inr r"
    and "canon_wf (canonical_record_to_canon r)" and "canonical_record_to_canon r \<noteq> CNull"
    by (simp_all add: canonical_record_to_canon_def canonical_record_from_canon_def canonical_record_valid_def codec_simps)
next
  fix v and r :: canonical_record assume "canon_wf v" "canonical_record_from_canon v = Inr r"
  then show "canonical_record_valid r"
    by (auto simp: canonical_record_to_canon_def canonical_record_from_canon_def canonical_record_valid_def rbind_eq_Inr_iff Let_def elim!: field_as_InrE intro: codec_valid)
qed

lemmas c_canonical_record_rules [codec_simps] =
  c_canonical_record.from_to c_canonical_record.to_canon_wf c_canonical_record.option_round_trip c_canonical_record.option_wf

lemmas c_canonical_record_valids [codec_valid] = c_canonical_record.from_valid c_canonical_record.option_valid

definition record_wrap :: "string \<Rightarrow> ('a \<Rightarrow> canon) \<Rightarrow> 'a \<Rightarrow> canonical_record core_result" where
  "record_wrap kind to_canon x =
     (if \<not> is_registered kind 1 then Inl UnsupportedCodec
      else Inr \<lparr>cr_record_kind = kind, cr_record_version = 1, cr_body = to_canon x\<rparr>)"

definition record_body :: "(canon \<Rightarrow> 'a core_result) \<Rightarrow> canonical_record \<Rightarrow> 'a core_result" where
  "record_body from_canon r = from_canon (cr_body r)"

definition record_hash :: "(bytes \<Rightarrow> hash256) \<Rightarrow> canonical_record \<Rightarrow> hash256" where
  "record_hash sha r =
     domain_hash sha ''astra.protocol-record.v1'' (typed_encode canonical_record_to_canon r)"

definition record_reference :: "(bytes \<Rightarrow> hash256) \<Rightarrow> canonical_record \<Rightarrow> bytes \<Rightarrow> protocol_record_ref" where
  "record_reference sha r key =
     \<lparr>prr_record_kind = cr_record_kind r, prr_record_version = cr_record_version r, prr_record_key = key,
      prr_payload_hash = record_hash sha r\<rparr>"

definition decode_checked :: "bytes \<Rightarrow> limits \<Rightarrow> canonical_record core_result" where
  "decode_checked bs lim =
     rbind (typed_decode canonical_record_to_canon canonical_record_from_canon bs lim) (\<lambda>r.
       if \<not> is_registered (cr_record_kind r) (cr_record_version r) then Inl UnsupportedCodec else Inr r)"

definition verify_reference :: "(bytes \<Rightarrow> hash256) \<Rightarrow> protocol_record_ref \<Rightarrow> canonical_record \<Rightarrow> unit core_result" where
  "verify_reference sha ref r =
     (if prr_record_kind ref \<noteq> cr_record_kind r \<or> prr_record_version ref \<noteq> cr_record_version r
      then Inl InvalidEvidence
      else if prr_payload_hash ref \<noteq> record_hash sha r then Inl InvalidEvidence else Inr ())"

section \<open>Properties\<close>


text \<open>
  C31: request identity: if two invocations pass \<open>verify_hash\<close> and carry the same request hash, then the
  two byte strings given to SHA-256 collide, or the encoded contents are equal byte for byte; and if both
  contents are in the form that decoding produces (\<open>request_content_valid\<close>: identifiers of full length,
  the sets of the read contract in canonical order), the contents themselves are equal.
\<close>

theorem request_hash_identifies_content:
  assumes "verify_hash sha i = Inr ()" "verify_hash sha j = Inr ()" "iv_request_hash i = iv_request_hash j"
  defines "m \<equiv> to_bytes ''astra.request.v1'' @ [0] @ typed_encode request_content_to_canon (iv_content i)"
    and "m' \<equiv> to_bytes ''astra.request.v1'' @ [0] @ typed_encode request_content_to_canon (iv_content j)"
  shows "m \<noteq> m' \<and> sha m = sha m' \<or>
     typed_encode request_content_to_canon (iv_content i) = typed_encode request_content_to_canon (iv_content j) \<and>
     (request_content_valid (iv_content i) \<and> request_content_valid (iv_content j) \<longrightarrow> iv_content i = iv_content j)"
proof -
  have "sha m = sha m'"
    using assms(1-3) by (simp add: verify_hash_def request_hash_def domain_hash_def m_def m'_def split: if_splits)
  then show ?thesis
    using canonical.encode_inject [OF c_request_content.canonical_axioms] by (auto simp: m_def m'_def)
qed

definition sample_content :: "canon \<Rightarrow> request_content" where
  "sample_content args =
     \<lparr>rq_request_key = \<lparr>rk_tenant_id = replicate 16 1, rk_request_namespace = replicate 16 2,
                        rk_stable_request_id = replicate 16 3\<rparr>,
      rq_operation = \<lparr>or_operation_id = 4, or_version = 1\<rparr>, rq_operation_hash = replicate 32 5,
      rq_schema_hash = replicate 32 6, rq_contract_hash = replicate 32 7, rq_arguments = args,
      rq_read_contract = operation_default LocalSnapshot, rq_initial_session = None\<rparr>"

definition sample_invoke :: "canon \<Rightarrow> invoke" where
  "sample_invoke args =
     \<lparr>iv_content = sample_content args, iv_request_hash = replicate 32 0, iv_attempt_id = replicate 16 8,
      iv_deadline_budget_ms = 1000, iv_route_hint = None, iv_accepted_result_codecs = []\<rparr>"

lemma sample_content_valid: "canon_wf args \<Longrightarrow> request_content_valid (sample_content args)"
  by (simp add: request_content_valid_def sample_content_def request_key_valid_def id128_valid_def
      hash256_valid_def read_contract_valid_def operation_default_def set_ok_def)

theorem request_hash_identifies_content_witness:
  "sample_invoke CNull \<noteq> sample_invoke (CBool True) \<and>
   to_bytes ''astra.request.v1'' @ [0] @ typed_encode request_content_to_canon (iv_content (sample_invoke CNull)) \<noteq>
   to_bytes ''astra.request.v1'' @ [0] @ typed_encode request_content_to_canon (iv_content (sample_invoke (CBool True)))"
proof -
  have "iv_content (sample_invoke CNull) \<noteq> iv_content (sample_invoke (CBool True))"
    by (simp add: sample_invoke_def sample_content_def)
  moreover have "verify_hash (\<lambda>_. replicate 32 0) (sample_invoke args) = Inr ()" for args
    by (simp add: verify_hash_def request_hash_def domain_hash_def sample_invoke_def)
  moreover have "iv_request_hash (sample_invoke CNull) = iv_request_hash (sample_invoke (CBool True))"
    by (simp add: sample_invoke_def)
  moreover have "request_content_valid (iv_content (sample_invoke CNull))" "request_content_valid (iv_content (sample_invoke (CBool True)))"
    by (simp_all add: sample_invoke_def sample_content_valid)
  ultimately show ?thesis
    using request_hash_identifies_content [of "\<lambda>_. replicate 32 0" "sample_invoke CNull" "sample_invoke (CBool True)"] by auto
qed

text \<open>
  The session guarantees of a read contract are encoded in the order of their labels: a contract built
  in the order of the enum decodes to a different, reordered, contract.
\<close>

lemma session_guarantees_reordered:
  "read_contract_from_canon (read_contract_to_canon
      \<lparr>rc_visibility = Serial, rc_scope = [], rc_session_guarantees = [ReadYourWrites, MonotonicReads], rc_session_scope = NoSession\<rparr>) =
   Inr \<lparr>rc_visibility = Serial, rc_scope = [], rc_session_guarantees = [MonotonicReads, ReadYourWrites], rc_session_scope = NoSession\<rparr>"
  by code_simp

end
