(* ===== verification/Batch.thy ===== *)
theory Batch
  imports WireRecords KeyCodec
begin

text \<open>
  The durable schemas of \<^verbatim>\<open>batch.rs\<close>: logical keys, mutations, protocol record writes, transaction
  status records with their phase machine, compiled batches with their semantic digest and
  verification, and protocol-only batches; every schema with its canonical codec. The physical keys
  of protocol state (\<^verbatim>\<open>kernel.rs\<close>) are here as well, with the proof that no two of them coincide.
\<close>

section \<open>Keys and mutations\<close>

type_synonym logical_key = bytes

type_synonym revision = epoch64

definition logical_key_namespace :: "logical_key \<Rightarrow> namespace core_result" where
  "logical_key_namespace k = rbind (kr_namespace k) (\<lambda>(ns, _). Inr ns)"

definition logical_key_to_canon :: "logical_key \<Rightarrow> canon" where
  "logical_key_to_canon k = c_bytes k"

definition logical_key_from_canon :: "canon \<Rightarrow> logical_key core_result" where
  "logical_key_from_canon v = as_bytes v"

lemma logical_key_rules [codec_simps]:
  "logical_key_from_canon (logical_key_to_canon k) = Inr k" "canon_wf (logical_key_to_canon k)"
  by (simp_all add: logical_key_from_canon_def logical_key_to_canon_def codec_simps)

record semantic_meta =
  sm_flags :: u8
  sm_bytes :: bytes

text \<open>The flags travel as a 32-bit number and are truncated to a byte on reading.\<close>

definition semantic_meta_to_canon :: "semantic_meta \<Rightarrow> canon" where
  "semantic_meta_to_canon m = c_obj [(''bytes'', c_bytes (sm_bytes m)), (''flags'', c_u32 (ucast (sm_flags m)))]"

definition semantic_meta_from_canon :: "canon \<Rightarrow> semantic_meta core_result" where
  "semantic_meta_from_canon v =
     rbind (expect_fields v [''bytes'', ''flags'']) (\<lambda>_.
     rbind (field_as v ''flags'' as_u32) (\<lambda>flags.
     rbind (field_as v ''bytes'' as_bytes) (\<lambda>bs.
     Inr \<lparr>sm_flags = ucast flags, sm_bytes = bs\<rparr>)))"

interpretation c_semantic_meta: canonical semantic_meta_to_canon semantic_meta_from_canon "\<lambda>_. True"
proof unfold_locales
  fix m :: semantic_meta
  have "ucast (ucast (sm_flags m) :: u32) = sm_flags m"
    by (simp add: ucast_up_ucast_id is_up)
  then show "semantic_meta_from_canon (semantic_meta_to_canon m) = Inr m"
    and "canon_wf (semantic_meta_to_canon m)" and "semantic_meta_to_canon m \<noteq> CNull"
    by (simp_all add: semantic_meta_to_canon_def semantic_meta_from_canon_def codec_simps)
qed simp

lemmas c_semantic_meta_rules [codec_simps] = c_semantic_meta.from_to c_semantic_meta.to_canon_wf

datatype storage_mutation =
    PutMut logical_key bytes semantic_meta
  | DeleteMut logical_key semantic_meta

fun storage_mutation_valid :: "storage_mutation \<Rightarrow> bool" where
  "storage_mutation_valid (PutMut key val meta) \<longleftrightarrow> True"
| "storage_mutation_valid (DeleteMut key meta) \<longleftrightarrow> True"

fun storage_mutation_to_canon :: "storage_mutation \<Rightarrow> canon" where
  "storage_mutation_to_canon (PutMut key val meta) =
     c_obj [(''key'', logical_key_to_canon key), (''kind'', CStr ''put''),
            (''semantic_meta'', semantic_meta_to_canon meta), (''value'', c_bytes val)]"
| "storage_mutation_to_canon (DeleteMut key meta) =
     c_obj [(''key'', logical_key_to_canon key), (''kind'', CStr ''delete''),
            (''semantic_meta'', semantic_meta_to_canon meta)]"

definition storage_mutation_from_canon :: "canon \<Rightarrow> storage_mutation core_result" where
  "storage_mutation_from_canon v =
     rbind (field_as v ''kind'' as_str) (\<lambda>tag.
       if tag = ''put'' then
         rbind (expect_fields v [''key'', ''kind'', ''semantic_meta'', ''value'']) (\<lambda>_.
         rbind (field_as v ''key'' logical_key_from_canon) (\<lambda>key.
         rbind (field_as v ''value'' as_bytes) (\<lambda>val.
         rbind (field_as v ''semantic_meta'' semantic_meta_from_canon) (\<lambda>meta.
         Inr (PutMut key val meta)))))
       else if tag = ''delete'' then
         rbind (expect_fields v [''key'', ''kind'', ''semantic_meta'']) (\<lambda>_.
         rbind (field_as v ''key'' logical_key_from_canon) (\<lambda>key.
         rbind (field_as v ''semantic_meta'' semantic_meta_from_canon) (\<lambda>meta.
         Inr (DeleteMut key meta))))
       else Inl NonCanonicalEncoding)"

interpretation c_storage_mutation: canonical storage_mutation_to_canon storage_mutation_from_canon storage_mutation_valid
proof unfold_locales
  fix x assume "storage_mutation_valid x"
  then show "storage_mutation_from_canon (storage_mutation_to_canon x) = Inr x"
    and "canon_wf (storage_mutation_to_canon x)" and "storage_mutation_to_canon x \<noteq> CNull"
    by (cases x; simp add: storage_mutation_from_canon_def codec_simps)+
next
  fix v x assume "canon_wf v" "storage_mutation_from_canon v = Inr x"
  then show "storage_mutation_valid x"
    by (auto simp: storage_mutation_from_canon_def rbind_eq_Inr_iff split: if_splits
        elim!: field_as_InrE intro: codec_valid)
qed

lemmas c_storage_mutation_rules [codec_simps] =
  c_storage_mutation.from_to c_storage_mutation.to_canon_wf c_storage_mutation.option_round_trip c_storage_mutation.option_wf

lemmas c_storage_mutation_valids [codec_valid] = c_storage_mutation.from_valid c_storage_mutation.option_valid

fun mutation_key :: "storage_mutation \<Rightarrow> logical_key" where
  "mutation_key (PutMut key _ _) = key"
| "mutation_key (DeleteMut key _) = key"

section \<open>Protocol records\<close>

datatype expected_revision =
    ExpAbsent
  | ExpExact epoch64

fun expected_revision_valid :: "expected_revision \<Rightarrow> bool" where
  "expected_revision_valid ExpAbsent \<longleftrightarrow> True"
| "expected_revision_valid (ExpExact revision) \<longleftrightarrow> True"

fun expected_revision_to_canon :: "expected_revision \<Rightarrow> canon" where
  "expected_revision_to_canon ExpAbsent =
     c_obj [(''kind'', CStr ''absent'')]"
| "expected_revision_to_canon (ExpExact revision) =
     c_obj [(''kind'', CStr ''exact''), (''revision'', epoch_to_canon revision)]"

definition expected_revision_from_canon :: "canon \<Rightarrow> expected_revision core_result" where
  "expected_revision_from_canon v =
     rbind (field_as v ''kind'' as_str) (\<lambda>tag.
       if tag = ''absent'' then
         Inr ExpAbsent
       else if tag = ''exact'' then
         rbind (field_as v ''revision'' epoch_from_canon) (\<lambda>revision.
         Inr (ExpExact revision))
       else Inl NonCanonicalEncoding)"

interpretation c_expected_revision: canonical expected_revision_to_canon expected_revision_from_canon expected_revision_valid
proof unfold_locales
  fix x assume "expected_revision_valid x"
  then show "expected_revision_from_canon (expected_revision_to_canon x) = Inr x"
    and "canon_wf (expected_revision_to_canon x)" and "expected_revision_to_canon x \<noteq> CNull"
    by (cases x; simp add: expected_revision_from_canon_def codec_simps)+
next
  fix v x assume "canon_wf v" "expected_revision_from_canon v = Inr x"
  then show "expected_revision_valid x"
    by (auto simp: expected_revision_from_canon_def rbind_eq_Inr_iff split: if_splits
        elim!: field_as_InrE intro: codec_valid)
qed

lemmas c_expected_revision_rules [codec_simps] =
  c_expected_revision.from_to c_expected_revision.to_canon_wf c_expected_revision.option_round_trip c_expected_revision.option_wf

lemmas c_expected_revision_valids [codec_valid] = c_expected_revision.from_valid c_expected_revision.option_valid

record protocol_record_key =
  pk_record_kind :: string
  pk_scope_key :: bytes
  pk_record_id :: bytes

definition protocol_record_key_valid :: "protocol_record_key \<Rightarrow> bool" where
  "protocol_record_key_valid r \<longleftrightarrow>
     utf8_valid (pk_record_kind r)"

definition protocol_record_key_to_canon :: "protocol_record_key \<Rightarrow> canon" where
  "protocol_record_key_to_canon r =
     c_obj [(''record_id'', c_bytes (pk_record_id r)),
            (''record_kind'', CStr (pk_record_kind r)),
            (''scope_key'', c_bytes (pk_scope_key r))]"

definition protocol_record_key_from_canon :: "canon \<Rightarrow> protocol_record_key core_result" where
  "protocol_record_key_from_canon v =
     rbind (expect_fields v [''record_id'', ''record_kind'', ''scope_key'']) (\<lambda>_.
     rbind (field_as v ''record_kind'' as_str) (\<lambda>record_kind.
     rbind (field_as v ''scope_key'' as_bytes) (\<lambda>scope_key.
     rbind (field_as v ''record_id'' as_bytes) (\<lambda>record_id.
     Inr \<lparr>pk_record_kind = record_kind, pk_scope_key = scope_key, pk_record_id = record_id\<rparr>))))"

interpretation c_protocol_record_key: canonical protocol_record_key_to_canon protocol_record_key_from_canon protocol_record_key_valid
proof unfold_locales
  fix r :: protocol_record_key assume "protocol_record_key_valid r"
  then show "protocol_record_key_from_canon (protocol_record_key_to_canon r) = Inr r"
    and "canon_wf (protocol_record_key_to_canon r)" and "protocol_record_key_to_canon r \<noteq> CNull"
    by (simp_all add: protocol_record_key_to_canon_def protocol_record_key_from_canon_def protocol_record_key_valid_def codec_simps)
next
  fix v and r :: protocol_record_key assume "canon_wf v" "protocol_record_key_from_canon v = Inr r"
  then show "protocol_record_key_valid r"
    by (auto simp: protocol_record_key_to_canon_def protocol_record_key_from_canon_def protocol_record_key_valid_def rbind_eq_Inr_iff Let_def elim!: field_as_InrE intro: codec_valid)
qed

lemmas c_protocol_record_key_rules [codec_simps] =
  c_protocol_record_key.from_to c_protocol_record_key.to_canon_wf c_protocol_record_key.option_round_trip c_protocol_record_key.option_wf

lemmas c_protocol_record_key_valids [codec_valid] = c_protocol_record_key.from_valid c_protocol_record_key.option_valid

definition record_namespace :: "string \<Rightarrow> namespace" where
  "record_namespace kind =
     (if kind \<in> {''txn_status'', ''local_decision''} then NsTxnStatus
      else if kind \<in> {''request_binding'', ''namespace_retirement'', ''final_receipt''} then NsRequestBinding
      else if kind \<in> {''holder_state'', ''transfer_terms'', ''transfer_decision''} then NsEscrow
      else if kind \<in> {''semantic_commit'', ''causal_context'', ''outbox'', ''inbox''} then NsReplication
      else if kind \<in> {''plan'', ''artifact''} then NsPlan
      else if kind \<in> {''authority_grant'', ''catalog_command'', ''catalog_commit'', ''migration_record'',
                      ''close_certificate''} then NsCatalog
      else NsSystem)"

definition protocol_logical_key :: "protocol_record_key \<Rightarrow> logical_key" where
  "protocol_logical_key k =
     kw_bytes (pk_record_id k) (kw_bytes (pk_scope_key k) (kw_bytes (to_bytes (pk_record_kind k))
       (kw_namespace (record_namespace (pk_record_kind k)) [])))"

definition txn_status_key :: "txn_id \<Rightarrow> logical_key" where
  "txn_status_key txn =
     kw_bytes txn (kw_bytes (to_bytes ''txn_status'') (kw_namespace NsTxnStatus []))"

definition request_binding_record_key :: "request_key \<Rightarrow> protocol_record_key" where
  "request_binding_record_key k =
     \<lparr>pk_record_kind = ''request_binding'', pk_scope_key = rk_tenant_id k @ rk_request_namespace k,
      pk_record_id = rk_stable_request_id k\<rparr>"

record versioned_record =
  vr_record_kind :: string
  vr_record_version :: u32
  vr_canonical_payload :: bytes

definition versioned_record_valid :: "versioned_record \<Rightarrow> bool" where
  "versioned_record_valid r \<longleftrightarrow>
     utf8_valid (vr_record_kind r)"

definition versioned_record_to_canon :: "versioned_record \<Rightarrow> canon" where
  "versioned_record_to_canon r =
     c_obj [(''canonical_payload'', c_bytes (vr_canonical_payload r)),
            (''record_kind'', CStr (vr_record_kind r)),
            (''record_version'', c_u32 (vr_record_version r))]"

definition versioned_record_from_canon :: "canon \<Rightarrow> versioned_record core_result" where
  "versioned_record_from_canon v =
     rbind (expect_fields v [''canonical_payload'', ''record_kind'', ''record_version'']) (\<lambda>_.
     rbind (field_as v ''record_kind'' as_str) (\<lambda>record_kind.
     rbind (field_as v ''record_version'' as_u32) (\<lambda>record_version.
     rbind (field_as v ''canonical_payload'' as_bytes) (\<lambda>canonical_payload.
     Inr \<lparr>vr_record_kind = record_kind, vr_record_version = record_version,
          vr_canonical_payload = canonical_payload\<rparr>))))"

interpretation c_versioned_record: canonical versioned_record_to_canon versioned_record_from_canon versioned_record_valid
proof unfold_locales
  fix r :: versioned_record assume "versioned_record_valid r"
  then show "versioned_record_from_canon (versioned_record_to_canon r) = Inr r"
    and "canon_wf (versioned_record_to_canon r)" and "versioned_record_to_canon r \<noteq> CNull"
    by (simp_all add: versioned_record_to_canon_def versioned_record_from_canon_def versioned_record_valid_def codec_simps)
next
  fix v and r :: versioned_record assume "canon_wf v" "versioned_record_from_canon v = Inr r"
  then show "versioned_record_valid r"
    by (auto simp: versioned_record_to_canon_def versioned_record_from_canon_def versioned_record_valid_def rbind_eq_Inr_iff Let_def elim!: field_as_InrE intro: codec_valid)
qed

lemmas c_versioned_record_rules [codec_simps] =
  c_versioned_record.from_to c_versioned_record.to_canon_wf c_versioned_record.option_round_trip c_versioned_record.option_wf

lemmas c_versioned_record_valids [codec_valid] = c_versioned_record.from_valid c_versioned_record.option_valid

definition versioned_record_validate :: "versioned_record \<Rightarrow> unit core_result" where
  "versioned_record_validate r =
     (if \<not> is_registered (vr_record_kind r) (vr_record_version r) then Inl UnsupportedCodec
      else rbind (canon_decode (vr_canonical_payload r) limits_v1) (\<lambda>_. Inr ()))"

definition versioned_record_reference ::
  "(bytes \<Rightarrow> hash256) \<Rightarrow> versioned_record \<Rightarrow> protocol_record_key \<Rightarrow> protocol_record_ref" where
  "versioned_record_reference sha r key =
     \<lparr>prr_record_kind = vr_record_kind r, prr_record_version = vr_record_version r,
      prr_record_key = protocol_logical_key key,
      prr_payload_hash = domain_hash sha ''astra.protocol-record.v1'' (vr_canonical_payload r)\<rparr>"

record record_write =
  rw_key :: protocol_record_key
  rw_expected :: expected_revision
  rw_next :: versioned_record

definition record_write_valid :: "record_write \<Rightarrow> bool" where
  "record_write_valid r \<longleftrightarrow>
     protocol_record_key_valid (rw_key r) \<and> expected_revision_valid (rw_expected r) \<and>
     versioned_record_valid (rw_next r)"

definition record_write_to_canon :: "record_write \<Rightarrow> canon" where
  "record_write_to_canon r =
     c_obj [(''expected'', expected_revision_to_canon (rw_expected r)),
            (''key'', protocol_record_key_to_canon (rw_key r)),
            (''next'', versioned_record_to_canon (rw_next r))]"

definition record_write_from_canon :: "canon \<Rightarrow> record_write core_result" where
  "record_write_from_canon v =
     rbind (expect_fields v [''expected'', ''key'', ''next'']) (\<lambda>_.
     rbind (field_as v ''key'' protocol_record_key_from_canon) (\<lambda>key.
     rbind (field_as v ''expected'' expected_revision_from_canon) (\<lambda>expected.
     rbind (field_as v ''next'' versioned_record_from_canon) (\<lambda>nxt.
     Inr \<lparr>rw_key = key, rw_expected = expected, rw_next = nxt\<rparr>))))"

interpretation c_record_write: canonical record_write_to_canon record_write_from_canon record_write_valid
proof unfold_locales
  fix r :: record_write assume "record_write_valid r"
  then show "record_write_from_canon (record_write_to_canon r) = Inr r"
    and "canon_wf (record_write_to_canon r)" and "record_write_to_canon r \<noteq> CNull"
    by (simp_all add: record_write_to_canon_def record_write_from_canon_def record_write_valid_def codec_simps)
next
  fix v and r :: record_write assume "canon_wf v" "record_write_from_canon v = Inr r"
  then show "record_write_valid r"
    by (auto simp: record_write_to_canon_def record_write_from_canon_def record_write_valid_def rbind_eq_Inr_iff Let_def elim!: field_as_InrE intro: codec_valid)
qed

lemmas c_record_write_rules [codec_simps] =
  c_record_write.from_to c_record_write.to_canon_wf c_record_write.option_round_trip c_record_write.option_wf

lemmas c_record_write_valids [codec_valid] = c_record_write.from_valid c_record_write.option_valid

interpretation c_record_writes: canonical "vec_to_canon record_write_to_canon" "vec_from_canon record_write_from_canon"
  "list_all record_write_valid"
  by (rule c_record_write.vec_canonical)

lemmas c_record_writes_rules [codec_simps] = c_record_writes.from_to c_record_writes.to_canon_wf

lemmas c_record_writes_valids [codec_valid] = c_record_writes.from_valid

section \<open>Transaction status\<close>

datatype txn_phase = PhBound | PhAdmitted | PhPrepared | PhInstalled | PhAborted | PhTerminal

fun txn_phase_label :: "txn_phase \<Rightarrow> string" where
  "txn_phase_label PhBound = ''BOUND''"
| "txn_phase_label PhAdmitted = ''ADMITTED''"
| "txn_phase_label PhPrepared = ''PREPARED''"
| "txn_phase_label PhInstalled = ''INSTALLED''"
| "txn_phase_label PhAborted = ''ABORTED''"
| "txn_phase_label PhTerminal = ''TERMINAL''"

definition txn_phase_from_label :: "string \<Rightarrow> txn_phase core_result" where
  "txn_phase_from_label s =
     (if s = ''BOUND'' then Inr PhBound
      else if s = ''ADMITTED'' then Inr PhAdmitted
      else if s = ''PREPARED'' then Inr PhPrepared
      else if s = ''INSTALLED'' then Inr PhInstalled
      else if s = ''ABORTED'' then Inr PhAborted
      else if s = ''TERMINAL'' then Inr PhTerminal
      else Inl NonCanonicalEncoding)"

definition txn_phase_to_canon :: "txn_phase \<Rightarrow> canon" where
  "txn_phase_to_canon x = CStr (txn_phase_label x)"

definition txn_phase_from_canon :: "canon \<Rightarrow> txn_phase core_result" where
  "txn_phase_from_canon v = rbind (as_str v) txn_phase_from_label"

lemma txn_phase_rules [codec_simps]:
  "txn_phase_from_canon (txn_phase_to_canon x) = Inr x" "canon_wf (txn_phase_to_canon x)"
  by (cases x; simp add: txn_phase_to_canon_def txn_phase_from_canon_def txn_phase_from_label_def is_ascii_utf8)+

definition phase_can_advance_to :: "txn_phase \<Rightarrow> txn_phase \<Rightarrow> bool" where
  "phase_can_advance_to p nxt \<longleftrightarrow>
     (p, nxt) \<in> {(PhBound, PhAdmitted), (PhAdmitted, PhPrepared), (PhAdmitted, PhTerminal),
                 (PhPrepared, PhInstalled), (PhPrepared, PhAborted), (PhInstalled, PhTerminal),
                 (PhAborted, PhTerminal)}"

datatype terminal_outcome =
    TermCommitted final_receipt
  | TermRejected final_receipt

fun terminal_outcome_valid :: "(bytes \<Rightarrow> hash256) \<Rightarrow> terminal_outcome \<Rightarrow> bool" where
  "terminal_outcome_valid sha (TermCommitted receipt) \<longleftrightarrow> final_receipt_valid sha receipt"
| "terminal_outcome_valid sha (TermRejected receipt) \<longleftrightarrow> final_receipt_valid sha receipt"

fun terminal_outcome_to_canon :: "terminal_outcome \<Rightarrow> canon" where
  "terminal_outcome_to_canon (TermCommitted receipt) =
     c_obj [(''kind'', CStr ''committed''), (''receipt'', final_receipt_to_canon receipt)]"
| "terminal_outcome_to_canon (TermRejected receipt) =
     c_obj [(''kind'', CStr ''rejected''), (''receipt'', final_receipt_to_canon receipt)]"

definition terminal_outcome_from_canon :: "(bytes \<Rightarrow> hash256) \<Rightarrow> canon \<Rightarrow> terminal_outcome core_result" where
  "terminal_outcome_from_canon sha v =
     rbind (expect_fields v [''kind'', ''receipt'']) (\<lambda>_.
     rbind (field_as v ''kind'' as_str) (\<lambda>tag.
       if tag = ''committed'' then
         rbind (field_as v ''receipt'' (final_receipt_from_canon sha)) (\<lambda>receipt. Inr (TermCommitted receipt))
       else if tag = ''rejected'' then
         rbind (field_as v ''receipt'' (final_receipt_from_canon sha)) (\<lambda>receipt. Inr (TermRejected receipt))
       else Inl NonCanonicalEncoding))"

interpretation c_terminal_outcome: canonical terminal_outcome_to_canon "terminal_outcome_from_canon sha" "terminal_outcome_valid sha" for sha
proof unfold_locales
  fix x assume "terminal_outcome_valid sha x"
  then show "terminal_outcome_from_canon sha (terminal_outcome_to_canon x) = Inr x"
    and "canon_wf (terminal_outcome_to_canon x)" and "terminal_outcome_to_canon x \<noteq> CNull"
    by (cases x; simp add: terminal_outcome_from_canon_def codec_simps
      c_final_receipt.to_canon_wf [where sha = sha])+
next
  fix v x assume "canon_wf v" "terminal_outcome_from_canon sha v = Inr x"
  then show "terminal_outcome_valid sha x"
    by (auto simp: terminal_outcome_from_canon_def rbind_eq_Inr_iff split: if_splits
        elim!: field_as_InrE intro: codec_valid)
qed

lemmas c_terminal_outcome_rules [codec_simps] =
  c_terminal_outcome.from_to c_terminal_outcome.to_canon_wf c_terminal_outcome.option_round_trip c_terminal_outcome.option_wf

lemmas c_terminal_outcome_valids [codec_valid] = c_terminal_outcome.from_valid c_terminal_outcome.option_valid

fun terminal_receipt :: "terminal_outcome \<Rightarrow> final_receipt" where
  "terminal_receipt (TermCommitted r) = r"
| "terminal_receipt (TermRejected r) = r"

record status_record =
  st_revision :: epoch64
  st_phase :: txn_phase
  st_plan :: plan_ref
  st_idc_bindings :: "idc_binding list"
  st_prepared_digest :: "hash256 option"
  st_decision_ref :: "protocol_record_ref option"
  st_accepted_result :: "accepted_result option"
  st_terminal_outcome :: "terminal_outcome option"

definition status_validate :: "status_record \<Rightarrow> unit core_result" where
  "status_validate r =
     (if (st_phase r = PhTerminal) = (st_terminal_outcome r \<noteq> None) then Inr () else Inl InvalidEvidence)"

definition status_record_valid :: "(bytes \<Rightarrow> hash256) \<Rightarrow> status_record \<Rightarrow> bool" where
  "status_record_valid sha r \<longleftrightarrow>
     plan_ref_valid (st_plan r) \<and>
     set_ok idc_binding_valid idc_binding_key (st_idc_bindings r) \<and>
     pred_option hash256_valid (st_prepared_digest r) \<and>
     pred_option protocol_record_ref_valid (st_decision_ref r) \<and>
     pred_option (accepted_result_valid sha) (st_accepted_result r) \<and>
     pred_option (terminal_outcome_valid sha) (st_terminal_outcome r) \<and>
     status_validate r = Inr ()"

definition status_record_to_canon :: "status_record \<Rightarrow> canon" where
  "status_record_to_canon r =
     c_obj [(''accepted_result'', c_option accepted_result_to_canon (st_accepted_result r)),
            (''decision_ref'', c_option protocol_record_ref_to_canon (st_decision_ref r)),
            (''idc_bindings'', fset_value idc_binding_to_canon (st_idc_bindings r)),
            (''phase'', txn_phase_to_canon (st_phase r)),
            (''plan'', plan_ref_to_canon (st_plan r)),
            (''prepared_digest'', c_option hash256_to_canon (st_prepared_digest r)),
            (''revision'', epoch_to_canon (st_revision r)),
            (''terminal_outcome'', c_option terminal_outcome_to_canon (st_terminal_outcome r))]"

definition status_record_from_canon :: "(bytes \<Rightarrow> hash256) \<Rightarrow> canon \<Rightarrow> status_record core_result" where
  "status_record_from_canon sha v =
     rbind (expect_fields v [''accepted_result'', ''decision_ref'', ''idc_bindings'',
                             ''phase'', ''plan'', ''prepared_digest'', ''revision'',
                             ''terminal_outcome'']) (\<lambda>_.
     rbind (field_as v ''revision'' epoch_from_canon) (\<lambda>revision.
     rbind (field_as v ''phase'' txn_phase_from_canon) (\<lambda>phase.
     rbind (field_as v ''plan'' plan_ref_from_canon) (\<lambda>plan.
     rbind (field_as v ''idc_bindings'' (decode_set idc_binding_key idc_binding_from_canon)) (\<lambda>idc_bindings.
     rbind (field_as v ''prepared_digest'' (option_from_canon hash256_from_canon)) (\<lambda>prepared_digest.
     rbind (field_as v ''decision_ref'' (option_from_canon protocol_record_ref_from_canon)) (\<lambda>decision_ref.
     rbind (field_as v ''accepted_result'' (option_from_canon (accepted_result_from_canon sha))) (\<lambda>accepted_result.
     rbind (field_as v ''terminal_outcome'' (option_from_canon (terminal_outcome_from_canon sha))) (\<lambda>terminal_outcome.
     let r = \<lparr>st_revision = revision, st_phase = phase, st_plan = plan,
          st_idc_bindings = idc_bindings, st_prepared_digest = prepared_digest,
          st_decision_ref = decision_ref, st_accepted_result = accepted_result,
          st_terminal_outcome = terminal_outcome\<rparr>
     in rbind (status_validate r) (\<lambda>_. Inr r))))))))))"

interpretation c_status_record: canonical status_record_to_canon "status_record_from_canon sha" "status_record_valid sha" for sha
proof unfold_locales
  fix r :: status_record assume "status_record_valid sha r"
  then show "status_record_from_canon sha (status_record_to_canon r) = Inr r"
    and "canon_wf (status_record_to_canon r)" and "status_record_to_canon r \<noteq> CNull"
    by (cases r; simp add: status_record_to_canon_def status_record_from_canon_def status_record_valid_def Let_def codec_simps
        c_accepted_result.to_canon_wf [where sha = sha] c_accepted_result.option_wf [where sha = sha]
        c_terminal_outcome.to_canon_wf [where sha = sha] c_terminal_outcome.option_wf [where sha = sha])+
next
  fix v and r :: status_record assume "canon_wf v" "status_record_from_canon sha v = Inr r"
  then show "status_record_valid sha r"
    by (auto simp: status_record_to_canon_def status_record_from_canon_def status_record_valid_def rbind_eq_Inr_iff Let_def elim!: field_as_InrE intro: codec_valid)
qed

lemmas c_status_record_rules [codec_simps] =
  c_status_record.from_to c_status_record.to_canon_wf c_status_record.option_round_trip c_status_record.option_wf

lemmas c_status_record_valids [codec_valid] = c_status_record.from_valid c_status_record.option_valid

definition validate_transition :: "status_record option \<Rightarrow> status_record \<Rightarrow> unit core_result" where
  "validate_transition prev nxt =
     rbind (status_validate nxt) (\<lambda>_.
      case prev of
        None \<Rightarrow> if st_revision nxt \<noteq> 1 then Inl Conflict else Inr ()
      | Some p \<Rightarrow>
          if st_revision nxt \<noteq> st_revision p + 1 then Inl Conflict
          else if st_phase p = st_phase nxt \<and> p = nxt then Inr ()
          else if \<not> phase_can_advance_to (st_phase p) (st_phase nxt) then Inl Conflict
          else if st_plan p \<noteq> st_plan nxt \<or> st_idc_bindings p \<noteq> st_idc_bindings nxt
          then Inl IdentityMismatch
          else (case (st_terminal_outcome p, st_terminal_outcome nxt) of
                  (Some a, Some b) \<Rightarrow> if a \<noteq> b then Inl IdentityMismatch else Inr ()
                | _ \<Rightarrow> Inr ()))"

record status_transition =
  ts_txn_id :: txn_id
  ts_request_key :: request_key
  ts_request_hash :: hash256
  ts_expected_revision :: expected_revision
  ts_next :: status_record

definition status_transition_valid :: "(bytes \<Rightarrow> hash256) \<Rightarrow> status_transition \<Rightarrow> bool" where
  "status_transition_valid sha r \<longleftrightarrow>
     txn_id_valid (ts_txn_id r) \<and> request_key_valid (ts_request_key r) \<and>
     hash256_valid (ts_request_hash r) \<and>
     expected_revision_valid (ts_expected_revision r) \<and> status_record_valid sha (ts_next r)"

definition status_transition_to_canon :: "status_transition \<Rightarrow> canon" where
  "status_transition_to_canon r =
     c_obj [(''expected_revision'', expected_revision_to_canon (ts_expected_revision r)),
            (''next'', status_record_to_canon (ts_next r)),
            (''request_hash'', hash256_to_canon (ts_request_hash r)),
            (''request_key'', request_key_to_canon (ts_request_key r)),
            (''txn_id'', txn_id_to_canon (ts_txn_id r))]"

definition status_transition_from_canon :: "(bytes \<Rightarrow> hash256) \<Rightarrow> canon \<Rightarrow> status_transition core_result" where
  "status_transition_from_canon sha v =
     rbind (expect_fields v [''expected_revision'', ''next'', ''request_hash'',
                             ''request_key'', ''txn_id'']) (\<lambda>_.
     rbind (field_as v ''txn_id'' txn_id_from_canon) (\<lambda>txn_id.
     rbind (field_as v ''request_key'' request_key_from_canon) (\<lambda>request_key.
     rbind (field_as v ''request_hash'' hash256_from_canon) (\<lambda>request_hash.
     rbind (field_as v ''expected_revision'' expected_revision_from_canon) (\<lambda>expected_revision.
     rbind (field_as v ''next'' (status_record_from_canon sha)) (\<lambda>nxt.
     Inr \<lparr>ts_txn_id = txn_id, ts_request_key = request_key, ts_request_hash = request_hash,
          ts_expected_revision = expected_revision, ts_next = nxt\<rparr>))))))"

interpretation c_status_transition: canonical status_transition_to_canon "status_transition_from_canon sha" "status_transition_valid sha" for sha
proof unfold_locales
  fix r :: status_transition assume "status_transition_valid sha r"
  then show "status_transition_from_canon sha (status_transition_to_canon r) = Inr r"
    and "canon_wf (status_transition_to_canon r)" and "status_transition_to_canon r \<noteq> CNull"
    by (simp_all add: status_transition_to_canon_def status_transition_from_canon_def status_transition_valid_def codec_simps
        c_status_record.to_canon_wf [where sha = sha] c_status_record.option_wf [where sha = sha])
next
  fix v and r :: status_transition assume "canon_wf v" "status_transition_from_canon sha v = Inr r"
  then show "status_transition_valid sha r"
    by (auto simp: status_transition_to_canon_def status_transition_from_canon_def status_transition_valid_def rbind_eq_Inr_iff Let_def elim!: field_as_InrE intro: codec_valid)
qed

lemmas c_status_transition_rules [codec_simps] =
  c_status_transition.from_to c_status_transition.to_canon_wf c_status_transition.option_round_trip c_status_transition.option_wf

lemmas c_status_transition_valids [codec_valid] = c_status_transition.from_valid c_status_transition.option_valid

datatype protocol_mutation =
    PutRecord record_write
  | SetTxnStatus status_transition

fun protocol_mutation_valid :: "(bytes \<Rightarrow> hash256) \<Rightarrow> protocol_mutation \<Rightarrow> bool" where
  "protocol_mutation_valid sha (PutRecord wr) \<longleftrightarrow> record_write_valid wr"
| "protocol_mutation_valid sha (SetTxnStatus transition) \<longleftrightarrow> status_transition_valid sha transition"

fun protocol_mutation_to_canon :: "protocol_mutation \<Rightarrow> canon" where
  "protocol_mutation_to_canon (PutRecord wr) =
     c_obj [(''kind'', CStr ''put_record''), (''write'', record_write_to_canon wr)]"
| "protocol_mutation_to_canon (SetTxnStatus transition) =
     c_obj [(''kind'', CStr ''set_txn_status''),
            (''transition'', status_transition_to_canon transition)]"

definition protocol_mutation_from_canon :: "(bytes \<Rightarrow> hash256) \<Rightarrow> canon \<Rightarrow> protocol_mutation core_result" where
  "protocol_mutation_from_canon sha v =
     rbind (field_as v ''kind'' as_str) (\<lambda>tag.
       if tag = ''put_record'' then
         rbind (field_as v ''write'' record_write_from_canon) (\<lambda>wr.
         Inr (PutRecord wr))
       else if tag = ''set_txn_status'' then
         rbind (field_as v ''transition'' (status_transition_from_canon sha)) (\<lambda>transition.
         Inr (SetTxnStatus transition))
       else Inl NonCanonicalEncoding)"

interpretation c_protocol_mutation: canonical protocol_mutation_to_canon "protocol_mutation_from_canon sha" "protocol_mutation_valid sha" for sha
proof unfold_locales
  fix x assume "protocol_mutation_valid sha x"
  then show "protocol_mutation_from_canon sha (protocol_mutation_to_canon x) = Inr x"
    and "canon_wf (protocol_mutation_to_canon x)" and "protocol_mutation_to_canon x \<noteq> CNull"
    by (cases x; simp add: protocol_mutation_from_canon_def codec_simps
      c_status_transition.to_canon_wf [where sha = sha])+
next
  fix v x assume "canon_wf v" "protocol_mutation_from_canon sha v = Inr x"
  then show "protocol_mutation_valid sha x"
    by (auto simp: protocol_mutation_from_canon_def rbind_eq_Inr_iff split: if_splits
        elim!: field_as_InrE intro: codec_valid)
qed

lemmas c_protocol_mutation_rules [codec_simps] =
  c_protocol_mutation.from_to c_protocol_mutation.to_canon_wf c_protocol_mutation.option_round_trip c_protocol_mutation.option_wf

lemmas c_protocol_mutation_valids [codec_valid] = c_protocol_mutation.from_valid c_protocol_mutation.option_valid

interpretation c_protocol_mutations: canonical "vec_to_canon protocol_mutation_to_canon" "vec_from_canon (protocol_mutation_from_canon sha)"
  "list_all (protocol_mutation_valid sha)" for sha
  by (rule c_protocol_mutation.vec_canonical)

lemmas c_protocol_mutations_rules [codec_simps] = c_protocol_mutations.from_to c_protocol_mutations.to_canon_wf

lemmas c_protocol_mutations_valids [codec_valid] = c_protocol_mutations.from_valid

interpretation c_storage_mutations: canonical "vec_to_canon storage_mutation_to_canon" "vec_from_canon storage_mutation_from_canon"
  "list_all storage_mutation_valid"
  by (rule c_storage_mutation.vec_canonical)

lemmas c_storage_mutations_rules [codec_simps] = c_storage_mutations.from_to c_storage_mutations.to_canon_wf

lemmas c_storage_mutations_valids [codec_valid] = c_storage_mutations.from_valid

section \<open>Compiled batches\<close>

record compiled_batch =
  cb_batch_version :: u32
  cb_txn_id :: txn_id
  cb_request_key :: request_key
  cb_request_hash :: hash256
  cb_operation :: operation_ref
  cb_operation_hash :: hash256
  cb_contract_hash :: hash256
  cb_schema_hash :: hash256
  cb_plan :: plan_ref
  cb_idc_bindings :: "idc_binding list"
  cb_consistency_class :: consistency_class
  cb_origin :: "origin_id option"
  cb_semantic_evidence :: "protocol_record_ref list"
  cb_captured_inputs :: bytes
  cb_mutations :: "storage_mutation list"
  cb_protocol_mutations :: "protocol_mutation list"
  cb_terminal_outcome :: "terminal_outcome option"
  cb_semantic_digest :: hash256

definition batch_fields :: "compiled_batch \<Rightarrow> (string \<times> canon) list" where
  "batch_fields b =
     [(''batch_version'', c_u32 (cb_batch_version b)),
      (''captured_inputs'', c_bytes (cb_captured_inputs b)),
      (''consistency_class'', class_to_canon (cb_consistency_class b)),
      (''contract_hash'', hash256_to_canon (cb_contract_hash b)),
      (''idc_bindings'', fset_value idc_binding_to_canon (cb_idc_bindings b)),
      (''kind'', CStr ''batch.v1''),
      (''mutations'', vec_to_canon storage_mutation_to_canon (cb_mutations b)),
      (''operation'', operation_ref_to_canon (cb_operation b)),
      (''operation_hash'', hash256_to_canon (cb_operation_hash b)),
      (''origin'', c_option origin_id_to_canon (cb_origin b)),
      (''plan'', plan_ref_to_canon (cb_plan b)),
      (''protocol_mutations'', vec_to_canon protocol_mutation_to_canon (cb_protocol_mutations b)),
      (''request_hash'', hash256_to_canon (cb_request_hash b)),
      (''request_key'', request_key_to_canon (cb_request_key b)),
      (''schema_hash'', hash256_to_canon (cb_schema_hash b)),
      (''semantic_evidence'', fset_value protocol_record_ref_to_canon (cb_semantic_evidence b)),
      (''terminal_outcome'', c_option terminal_outcome_to_canon (cb_terminal_outcome b)),
      (''txn_id'', txn_id_to_canon (cb_txn_id b))]"

definition semantic_payload :: "compiled_batch \<Rightarrow> canon" where
  "semantic_payload b = c_obj (batch_fields b)"

definition compute_digest :: "(bytes \<Rightarrow> hash256) \<Rightarrow> compiled_batch \<Rightarrow> hash256" where
  "compute_digest sha b = domain_hash sha ''astra.batch.v1'' (canon_encode (semantic_payload b))"

definition seal :: "(bytes \<Rightarrow> hash256) \<Rightarrow> compiled_batch \<Rightarrow> compiled_batch" where
  "seal sha b = b\<lparr>cb_semantic_digest := compute_digest sha b\<rparr>"

fun verify_mutations :: "logical_key list \<Rightarrow> storage_mutation list \<Rightarrow> unit core_result" where
  "verify_mutations seen [] = Inr ()"
| "verify_mutations seen (m # ms) =
     rbind (logical_key_namespace (mutation_key m)) (\<lambda>ns.
       if \<not> is_user_writable ns then Inl ReadOnly
       else if mutation_key m \<in> set seen then Inl ProtocolError
       else verify_mutations (mutation_key m # seen) ms)"

fun verify_protocol :: "compiled_batch \<Rightarrow> protocol_mutation list \<Rightarrow> unit core_result" where
  "verify_protocol b [] = Inr ()"
| "verify_protocol b (PutRecord w # pms) =
     rbind (versioned_record_validate (rw_next w)) (\<lambda>_. verify_protocol b pms)"
| "verify_protocol b (SetTxnStatus t # pms) =
     (if ts_txn_id t \<noteq> cb_txn_id b \<or> ts_request_key t \<noteq> cb_request_key b \<or> ts_request_hash t \<noteq> cb_request_hash b
      then Inl IdentityMismatch
      else rbind (status_validate (ts_next t)) (\<lambda>_. verify_protocol b pms))"

definition batch_verify :: "(bytes \<Rightarrow> hash256) \<Rightarrow> compiled_batch \<Rightarrow> unit core_result" where
  "batch_verify sha b =
     (if cb_batch_version b \<noteq> 1 then Inl UnsupportedFormat
      else if compute_digest sha b \<noteq> cb_semantic_digest b then Inl Corruption
      else rbind (verify_mutations [] (cb_mutations b)) (\<lambda>_.
           rbind (verify_protocol b (cb_protocol_mutations b)) (\<lambda>_.
           case cb_terminal_outcome b of None \<Rightarrow> Inr ()
           | Some t \<Rightarrow>
               let r = terminal_receipt t in
               if fr_txn_id r \<noteq> cb_txn_id b \<or> fr_request_key r \<noteq> cb_request_key b \<or>
                  fr_request_hash r \<noteq> cb_request_hash b \<or> fr_plan r \<noteq> cb_plan b
               then Inl IdentityMismatch else Inr ())))"

definition compiled_batch_valid :: "(bytes \<Rightarrow> hash256) \<Rightarrow> compiled_batch \<Rightarrow> bool" where
  "compiled_batch_valid sha r \<longleftrightarrow>
     txn_id_valid (cb_txn_id r) \<and> request_key_valid (cb_request_key r) \<and>
     hash256_valid (cb_request_hash r) \<and> hash256_valid (cb_operation_hash r) \<and>
     hash256_valid (cb_contract_hash r) \<and> hash256_valid (cb_schema_hash r) \<and>
     plan_ref_valid (cb_plan r) \<and>
     set_ok idc_binding_valid idc_binding_key (cb_idc_bindings r) \<and>
     pred_option origin_id_valid (cb_origin r) \<and>
     set_ok protocol_record_ref_valid protocol_record_ref_key (cb_semantic_evidence r) \<and>
     list_all storage_mutation_valid (cb_mutations r) \<and>
     list_all (protocol_mutation_valid sha) (cb_protocol_mutations r) \<and>
     pred_option (terminal_outcome_valid sha) (cb_terminal_outcome r) \<and>
     hash256_valid (cb_semantic_digest r) \<and> batch_verify sha r = Inr ()"

definition compiled_batch_to_canon :: "compiled_batch \<Rightarrow> canon" where
  "compiled_batch_to_canon b =
     (case semantic_payload b of
        CObject kvs \<Rightarrow> CObject (obj_insert ''semantic_digest'' (hash256_to_canon (cb_semantic_digest b)) kvs)
      | v \<Rightarrow> v)"

lemma compiled_batch_to_canon_obj:
  "compiled_batch_to_canon b =
     c_obj (batch_fields b @ [(''semantic_digest'', hash256_to_canon (cb_semantic_digest b))])"
  by (simp add: compiled_batch_to_canon_def semantic_payload_def c_obj_def)

definition compiled_batch_from_canon :: "(bytes \<Rightarrow> hash256) \<Rightarrow> canon \<Rightarrow> compiled_batch core_result" where
  "compiled_batch_from_canon sha v =
     rbind (expect_fields v [''batch_version'', ''captured_inputs'', ''consistency_class'',
                             ''contract_hash'', ''idc_bindings'', ''kind'', ''mutations'',
                             ''operation'', ''operation_hash'', ''origin'', ''plan'',
                             ''protocol_mutations'', ''request_hash'', ''request_key'',
                             ''schema_hash'', ''semantic_digest'', ''semantic_evidence'',
                             ''terminal_outcome'', ''txn_id'']) (\<lambda>_.
     rbind (field_as v ''batch_version'' as_u32) (\<lambda>batch_version.
     rbind (field_as v ''txn_id'' txn_id_from_canon) (\<lambda>txn_id.
     rbind (field_as v ''request_key'' request_key_from_canon) (\<lambda>request_key.
     rbind (field_as v ''request_hash'' hash256_from_canon) (\<lambda>request_hash.
     rbind (field_as v ''operation'' operation_ref_from_canon) (\<lambda>oper.
     rbind (field_as v ''operation_hash'' hash256_from_canon) (\<lambda>operation_hash.
     rbind (field_as v ''contract_hash'' hash256_from_canon) (\<lambda>contract_hash.
     rbind (field_as v ''schema_hash'' hash256_from_canon) (\<lambda>schema_hash.
     rbind (field_as v ''plan'' plan_ref_from_canon) (\<lambda>plan.
     rbind (field_as v ''idc_bindings'' (decode_set idc_binding_key idc_binding_from_canon)) (\<lambda>idc_bindings.
     rbind (field_as v ''consistency_class'' class_from_canon) (\<lambda>consistency_class.
     rbind (field_as v ''origin'' (option_from_canon origin_id_from_canon)) (\<lambda>origin.
     rbind (field_as v ''semantic_evidence'' (decode_set protocol_record_ref_key protocol_record_ref_from_canon)) (\<lambda>semantic_evidence.
     rbind (field_as v ''captured_inputs'' as_bytes) (\<lambda>captured_inputs.
     rbind (field_as v ''mutations'' (vec_from_canon storage_mutation_from_canon)) (\<lambda>mutations.
     rbind (field_as v ''protocol_mutations'' (vec_from_canon (protocol_mutation_from_canon sha))) (\<lambda>protocol_mutations.
     rbind (field_as v ''terminal_outcome'' (option_from_canon (terminal_outcome_from_canon sha))) (\<lambda>terminal_outcome.
     rbind (field_as v ''semantic_digest'' hash256_from_canon) (\<lambda>semantic_digest.
     let r = \<lparr>cb_batch_version = batch_version, cb_txn_id = txn_id, cb_request_key = request_key,
          cb_request_hash = request_hash, cb_operation = oper,
          cb_operation_hash = operation_hash, cb_contract_hash = contract_hash,
          cb_schema_hash = schema_hash, cb_plan = plan, cb_idc_bindings = idc_bindings,
          cb_consistency_class = consistency_class, cb_origin = origin,
          cb_semantic_evidence = semantic_evidence, cb_captured_inputs = captured_inputs,
          cb_mutations = mutations, cb_protocol_mutations = protocol_mutations,
          cb_terminal_outcome = terminal_outcome, cb_semantic_digest = semantic_digest\<rparr>
     in rbind (batch_verify sha r) (\<lambda>_. Inr r))))))))))))))))))))"

interpretation c_compiled_batch: canonical compiled_batch_to_canon "compiled_batch_from_canon sha" "compiled_batch_valid sha" for sha
proof unfold_locales
  fix r :: compiled_batch assume "compiled_batch_valid sha r"
  then show "compiled_batch_from_canon sha (compiled_batch_to_canon r) = Inr r"
    and "canon_wf (compiled_batch_to_canon r)" and "compiled_batch_to_canon r \<noteq> CNull"
    by (cases r; simp add: compiled_batch_to_canon_obj batch_fields_def compiled_batch_from_canon_def
        compiled_batch_valid_def Let_def codec_simps
        insert_commute [of "''txn_id''" "''semantic_digest''"]
        insert_commute [of "''terminal_outcome''" "''semantic_digest''"]
        insert_commute [of "''semantic_evidence''" "''semantic_digest''"]
        c_protocol_mutations.to_canon_wf [where sha = sha] c_terminal_outcome.to_canon_wf [where sha = sha]
        c_terminal_outcome.option_wf [where sha = sha])+
next
  fix v and r :: compiled_batch assume "canon_wf v" "compiled_batch_from_canon sha v = Inr r"
  then show "compiled_batch_valid sha r"
    unfolding compiled_batch_from_canon_def Let_def
    by - ((erule decode_bindE | erule (1) field_as_InrE)+; drule Inr_inject; hypsubst;
        unfold compiled_batch_valid_def; intro conjI; (simp only: compiled_batch.simps)?;
        (rule codec_valid, assumption, assumption | assumption | (simp; fail))?)
qed

lemmas c_compiled_batch_rules [codec_simps] =
  c_compiled_batch.from_to c_compiled_batch.to_canon_wf c_compiled_batch.option_round_trip c_compiled_batch.option_wf

lemmas c_compiled_batch_valids [codec_valid] = c_compiled_batch.from_valid c_compiled_batch.option_valid

section \<open>Protocol-only batches\<close>

record protocol_only_batch =
  po_internal_record_id :: protocol_record_key
  po_authorizing_evidence :: "protocol_record_ref list"
  po_writes :: "record_write list"

definition protocol_only_batch_valid :: "protocol_only_batch \<Rightarrow> bool" where
  "protocol_only_batch_valid r \<longleftrightarrow>
     protocol_record_key_valid (po_internal_record_id r) \<and>
     set_ok protocol_record_ref_valid protocol_record_ref_key (po_authorizing_evidence r) \<and>
     list_all record_write_valid (po_writes r)"

definition protocol_only_batch_to_canon :: "protocol_only_batch \<Rightarrow> canon" where
  "protocol_only_batch_to_canon r =
     c_obj [(''authorizing_evidence'', fset_value protocol_record_ref_to_canon (po_authorizing_evidence r)),
            (''internal_record_id'', protocol_record_key_to_canon (po_internal_record_id r)),
            (''kind'', CStr ''protocol-batch.v1''),
            (''writes'', vec_to_canon record_write_to_canon (po_writes r))]"

definition protocol_only_batch_from_canon :: "canon \<Rightarrow> protocol_only_batch core_result" where
  "protocol_only_batch_from_canon v =
     rbind (expect_fields v [''authorizing_evidence'', ''internal_record_id'', ''kind'',
                             ''writes'']) (\<lambda>_.
     rbind (field_as v ''internal_record_id'' protocol_record_key_from_canon) (\<lambda>internal_record_id.
     rbind (field_as v ''authorizing_evidence'' (decode_set protocol_record_ref_key protocol_record_ref_from_canon)) (\<lambda>authorizing_evidence.
     rbind (field_as v ''writes'' (vec_from_canon record_write_from_canon)) (\<lambda>writes.
     Inr \<lparr>po_internal_record_id = internal_record_id,
          po_authorizing_evidence = authorizing_evidence, po_writes = writes\<rparr>))))"

interpretation c_protocol_only_batch: canonical protocol_only_batch_to_canon protocol_only_batch_from_canon protocol_only_batch_valid
proof unfold_locales
  fix r :: protocol_only_batch assume "protocol_only_batch_valid r"
  then show "protocol_only_batch_from_canon (protocol_only_batch_to_canon r) = Inr r"
    and "canon_wf (protocol_only_batch_to_canon r)" and "protocol_only_batch_to_canon r \<noteq> CNull"
    by (simp_all add: protocol_only_batch_to_canon_def protocol_only_batch_from_canon_def protocol_only_batch_valid_def codec_simps)
next
  fix v and r :: protocol_only_batch assume "canon_wf v" "protocol_only_batch_from_canon v = Inr r"
  then show "protocol_only_batch_valid r"
    by (auto simp: protocol_only_batch_to_canon_def protocol_only_batch_from_canon_def protocol_only_batch_valid_def rbind_eq_Inr_iff Let_def elim!: field_as_InrE intro: codec_valid)
qed

lemmas c_protocol_only_batch_rules [codec_simps] =
  c_protocol_only_batch.from_to c_protocol_only_batch.to_canon_wf c_protocol_only_batch.option_round_trip c_protocol_only_batch.option_wf

lemmas c_protocol_only_batch_valids [codec_valid] = c_protocol_only_batch.from_valid c_protocol_only_batch.option_valid

definition protocol_batch_digest :: "(bytes \<Rightarrow> hash256) \<Rightarrow> protocol_only_batch \<Rightarrow> hash256" where
  "protocol_batch_digest sha b =
     domain_hash sha ''astra.protocol-batch.v1'' (typed_encode protocol_only_batch_to_canon b)"

section \<open>Encoder panics\<close>

text \<open>
  \<open>fset\<close> panics on a list with duplicates, so computing the digest of a batch panics when a set field
  of the batch, or of a record inside it, has a duplicate.
\<close>

definition fset_ok :: "('a \<Rightarrow> canon) \<Rightarrow> 'a list \<Rightarrow> bool" where
  "fset_ok to_canon xs = (case fset_canon to_canon xs of Inl _ \<Rightarrow> False | Inr _ \<Rightarrow> True)"

fun token_encodable :: "observation_token \<Rightarrow> bool" where
  "token_encodable (TokCertified _ idc _) = fset_ok idc_binding_to_canon idc"
| "token_encodable _ = True"

definition receipt_encodable :: "final_receipt \<Rightarrow> bool" where
  "receipt_encodable r \<longleftrightarrow>
     fset_ok protocol_record_ref_to_canon (fr_durability_evidence r) \<and>
     fset_ok idc_binding_to_canon (fr_idc_bindings r) \<and> fset_ok origin_id_to_canon (fr_origin_ids r) \<and>
     pred_option token_encodable (fr_observation_token r)"

definition status_encodable :: "status_record \<Rightarrow> bool" where
  "status_encodable s \<longleftrightarrow>
     fset_ok idc_binding_to_canon (st_idc_bindings s) \<and>
     pred_option (\<lambda>a. pred_option token_encodable (ar_accepted_observation a)) (st_accepted_result s) \<and>
     pred_option (\<lambda>t. receipt_encodable (terminal_receipt t)) (st_terminal_outcome s)"

fun mutation_encodable :: "protocol_mutation \<Rightarrow> bool" where
  "mutation_encodable (PutRecord _) = True"
| "mutation_encodable (SetTxnStatus t) = status_encodable (ts_next t)"

definition batch_encodable :: "compiled_batch \<Rightarrow> bool" where
  "batch_encodable b \<longleftrightarrow>
     fset_ok idc_binding_to_canon (cb_idc_bindings b) \<and>
     fset_ok protocol_record_ref_to_canon (cb_semantic_evidence b) \<and>
     list_all mutation_encodable (cb_protocol_mutations b) \<and>
     pred_option (\<lambda>t. receipt_encodable (terminal_receipt t)) (cb_terminal_outcome b)"

text \<open>\<open>CompiledBatch::verify\<close> on any batch, the panic of the digest computation included.\<close>

definition batch_check :: "(bytes \<Rightarrow> hash256) \<Rightarrow> compiled_batch \<Rightarrow> exc + unit" where
  "batch_check sha b =
     (if cb_batch_version b = 1 \<and> \<not> batch_encodable b then Inl Panic
      else case batch_verify sha b of Inl e \<Rightarrow> Inl (Fail e) | Inr _ \<Rightarrow> Inr ())"

context exact_canonical
begin

lemma set_ok_fset_ok: "set_ok valid key xs \<Longrightarrow> fset_ok to_canon xs"
  by (rule fset_canon_Inr [of xs])
    (auto simp: set_ok_def fset_ok_def strict_sorted_iff distinct_map)

end

lemmas fset_ok_sets =
  c_idc_binding.set_ok_fset_ok [where key = idc_binding_key]
  c_origin_id.set_ok_fset_ok [where key = origin_id_key]
  c_protocol_record_ref.set_ok_fset_ok [where key = protocol_record_ref_key]

lemma token_valid_encodable: "observation_token_valid t \<Longrightarrow> token_encodable t"
  by (cases t) (simp_all add: fset_ok_sets)

lemma receipt_valid_encodable: "final_receipt_valid sha r \<Longrightarrow> receipt_encodable r"
  by (auto simp: final_receipt_valid_def receipt_encodable_def fset_ok_sets token_valid_encodable
      elim: option.pred_mono_strong)

lemma terminal_valid_encodable: "terminal_outcome_valid sha t \<Longrightarrow> receipt_encodable (terminal_receipt t)"
  by (cases t) (auto simp: receipt_valid_encodable)

lemma status_valid_encodable: "status_record_valid sha s \<Longrightarrow> status_encodable s"
  by (auto simp: status_record_valid_def status_encodable_def accepted_result_valid_def fset_ok_sets
      token_valid_encodable elim!: option.pred_mono_strong intro: terminal_valid_encodable)

lemma batch_valid_encodable: "compiled_batch_valid sha b \<Longrightarrow> batch_encodable b"
proof -
  assume valid: "compiled_batch_valid sha b"
  have "mutation_encodable m" if "protocol_mutation_valid sha m" for m
    using that by (cases m) (auto simp: status_transition_valid_def status_valid_encodable)
  with valid show ?thesis
    by (auto simp: compiled_batch_valid_def batch_encodable_def fset_ok_sets list_all_iff
        elim: option.pred_mono_strong intro: terminal_valid_encodable)
qed

section \<open>Physical keys\<close>

lemma kw_bytes_inject: "kw_bytes a [] @ r = kw_bytes b [] @ s \<longleftrightarrow> a = b \<and> r = s"
proof -
  have read: "kr_elem (kw_bytes x [] @ y) = Inr (KBytes x, y)" for x y
    using kr_elem_kw_elem [of "KBytes x" y] by simp
  then have "a = b \<and> r = s" if "kw_bytes a [] @ r = kw_bytes b [] @ s"
    using arg_cong [OF that, of kr_elem] by simp
  then show ?thesis by auto
qed

lemma kw_bytes_eq_iff: "kw_bytes a [] = kw_bytes b [] \<longleftrightarrow> a = b"
  using kw_bytes_inject [of a "[]" b "[]"] by simp

lemma kw_bytes_nonempty [simp]: "kw_bytes a buf \<noteq> []" "[] \<noteq> kw_bytes a buf"
  by (simp_all add: kw_bytes_def)

lemma kw_bytes_append: "kw_bytes a buf = buf @ kw_bytes a []"
  by (simp add: kw_bytes_def)

lemma protocol_logical_key_layout:
  "protocol_logical_key k = namespace_byte (record_namespace (pk_record_kind k)) #
     kw_bytes (to_bytes (pk_record_kind k)) [] @ kw_bytes (pk_scope_key k) [] @ kw_bytes (pk_record_id k) []"
  by (simp add: protocol_logical_key_def kw_namespace_def kw_bytes_def)

lemma txn_status_key_layout:
  "txn_status_key t = namespace_byte NsTxnStatus # kw_bytes (to_bytes ''txn_status'') [] @ kw_bytes t []"
  by (simp add: txn_status_key_def kw_namespace_def kw_bytes_def)

lemma namespace_from_byte_byte: "namespace_from_byte (namespace_byte ns) = Inr ns"
  by (cases ns) (simp_all add: namespace_from_byte_def)

lemma logical_key_namespace_Cons: "logical_key_namespace (namespace_byte ns # r) = Inr ns"
  by (simp add: logical_key_namespace_def kr_namespace_def kr_take_def namespace_from_byte_byte)

lemma protocol_namespaces:
  "logical_key_namespace (protocol_logical_key k) = Inr (record_namespace (pk_record_kind k))"
  "logical_key_namespace (txn_status_key t) = Inr NsTxnStatus"
  "\<not> is_user_writable (record_namespace kind)" "\<not> is_user_writable NsTxnStatus"
  by (simp_all add: protocol_logical_key_layout txn_status_key_layout logical_key_namespace_Cons
      is_user_writable_def record_namespace_def del: namespace_byte.simps)

text \<open>
  C33: the physical keys of protocol state never coincide: two record keys with one logical key are equal,
  two transactions with one status key are equal, and a status key is never the key of a record.
\<close>

theorem protocol_keys_unique:
  "(protocol_logical_key k = protocol_logical_key k' \<longleftrightarrow> k = k') \<and>
   (txn_status_key t = txn_status_key t' \<longleftrightarrow> t = t') \<and> protocol_logical_key k \<noteq> txn_status_key t"
proof -
  have "protocol_logical_key k = protocol_logical_key k' \<longleftrightarrow> k = k'"
    by (cases k; cases k')
      (auto simp: protocol_logical_key_layout kw_bytes_inject kw_bytes_eq_iff)
  moreover have "protocol_logical_key k \<noteq> txn_status_key t"
    using kw_bytes_inject [of "pk_scope_key k" "kw_bytes (pk_record_id k) []" t "[]"]
    by (auto simp: protocol_logical_key_layout txn_status_key_layout kw_bytes_inject)
  moreover have "txn_status_key t = txn_status_key t' \<longleftrightarrow> t = t'"
    by (auto simp: txn_status_key_layout kw_bytes_eq_iff)
  ultimately show ?thesis by blast
qed

section \<open>Verified batches\<close>

lemma verify_mutations_Inr:
  "verify_mutations seen ms = Inr () \<longleftrightarrow>
     (\<forall>m \<in> set ms. \<exists>ns. logical_key_namespace (mutation_key m) = Inr ns \<and> is_user_writable ns) \<and>
     distinct (map mutation_key ms) \<and> mutation_key ` set ms \<inter> set seen = {}"
  by (induction seen ms rule: verify_mutations.induct) (auto simp: rbind_eq_Inr_iff)

lemma verify_protocol_Inr:
  "verify_protocol b pms = Inr () \<longleftrightarrow>
     (\<forall>w. PutRecord w \<in> set pms \<longrightarrow> versioned_record_validate (rw_next w) = Inr ()) \<and>
     (\<forall>t. SetTxnStatus t \<in> set pms \<longrightarrow>
        ts_txn_id t = cb_txn_id b \<and> ts_request_key t = cb_request_key b \<and>
        ts_request_hash t = cb_request_hash b \<and> status_validate (ts_next t) = Inr ())"
  by (induction b pms rule: verify_protocol.induct) (auto simp: rbind_eq_Inr_iff)

lemma verified_batch:
  assumes "batch_verify sha b = Inr ()"
  shows "cb_semantic_digest b = compute_digest sha b"
    and "distinct (map mutation_key (cb_mutations b))"
    and "mutation_key ` set (cb_mutations b) \<inter> (range protocol_logical_key \<union> range txn_status_key) = {}"
    and "SetTxnStatus t \<in> set (cb_protocol_mutations b) \<Longrightarrow>
      ts_txn_id t = cb_txn_id b \<and> ts_request_key t = cb_request_key b \<and> ts_request_hash t = cb_request_hash b"
    and "cb_terminal_outcome b = Some out \<Longrightarrow>
      fr_txn_id (terminal_receipt out) = cb_txn_id b \<and> fr_request_key (terminal_receipt out) = cb_request_key b \<and>
      fr_request_hash (terminal_receipt out) = cb_request_hash b"
proof -
  have m: "verify_mutations [] (cb_mutations b) = Inr ()"
    and p: "verify_protocol b (cb_protocol_mutations b) = Inr ()"
    using assms by (auto simp: batch_verify_def rbind_eq_Inr_iff split: if_splits)
  show "cb_semantic_digest b = compute_digest sha b"
    using assms by (auto simp: batch_verify_def split: if_splits)
  show "distinct (map mutation_key (cb_mutations b))"
    using m by (simp add: verify_mutations_Inr)
  show "mutation_key ` set (cb_mutations b) \<inter> (range protocol_logical_key \<union> range txn_status_key) = {}"
    using m protocol_namespaces by (fastforce simp: verify_mutations_Inr)
  show "SetTxnStatus t \<in> set (cb_protocol_mutations b) \<Longrightarrow>
      ts_txn_id t = cb_txn_id b \<and> ts_request_key t = cb_request_key b \<and> ts_request_hash t = cb_request_hash b"
    using p by (simp add: verify_protocol_Inr)
  show "cb_terminal_outcome b = Some out \<Longrightarrow>
      fr_txn_id (terminal_receipt out) = cb_txn_id b \<and> fr_request_key (terminal_receipt out) = cb_request_key b \<and>
      fr_request_hash (terminal_receipt out) = cb_request_hash b"
    using assms by (auto simp: batch_verify_def rbind_eq_Inr_iff Let_def split: if_splits)
qed

text \<open>
  C32: a batch that verifies carries the digest of its own payload, writes each business key at most once,
  and writes no key of protocol state; its status transitions and its terminal receipt are for its own
  transaction, request and request hash.
\<close>

theorem verified_batch_sound:
  assumes "batch_verify sha b = Inr ()"
  shows "cb_semantic_digest b = compute_digest sha b \<and> distinct (map mutation_key (cb_mutations b)) \<and>
    mutation_key ` set (cb_mutations b) \<inter> (range protocol_logical_key \<union> range txn_status_key) = {} \<and>
    (\<forall>t. SetTxnStatus t \<in> set (cb_protocol_mutations b) \<longrightarrow>
       ts_txn_id t = cb_txn_id b \<and> ts_request_key t = cb_request_key b \<and> ts_request_hash t = cb_request_hash b) \<and>
    (\<forall>out. cb_terminal_outcome b = Some out \<longrightarrow>
       fr_txn_id (terminal_receipt out) = cb_txn_id b \<and> fr_request_key (terminal_receipt out) = cb_request_key b \<and>
       fr_request_hash (terminal_receipt out) = cb_request_hash b)"
  using verified_batch [OF assms] by blast

definition sample_key :: request_key where
  "sample_key = \<lparr>rk_tenant_id = replicate 16 1, rk_request_namespace = replicate 16 2, rk_stable_request_id = replicate 16 3\<rparr>"

definition sample_plan :: plan_ref where
  "sample_plan = \<lparr>pr_plan_id = replicate 16 4, pr_generation = 1, pr_hash = replicate 32 4\<rparr>"

definition sample_status :: "u64 \<Rightarrow> txn_phase \<Rightarrow> status_record" where
  "sample_status r ph =
     \<lparr>st_revision = r, st_phase = ph, st_plan = sample_plan, st_idc_bindings = [], st_prepared_digest = None,
      st_decision_ref = None, st_accepted_result = None, st_terminal_outcome = None\<rparr>"

definition sample_batch :: "txn_id \<Rightarrow> storage_mutation list \<Rightarrow> status_record \<Rightarrow> compiled_batch" where
  "sample_batch txn ms st =
     \<lparr>cb_batch_version = 1, cb_txn_id = txn, cb_request_key = sample_key, cb_request_hash = replicate 32 5,
      cb_operation = \<lparr>or_operation_id = 1, or_version = 1\<rparr>, cb_operation_hash = replicate 32 6,
      cb_contract_hash = replicate 32 7, cb_schema_hash = replicate 32 8, cb_plan = sample_plan,
      cb_idc_bindings = [], cb_consistency_class = C0Local, cb_origin = None, cb_semantic_evidence = [],
      cb_captured_inputs = [], cb_mutations = ms,
      cb_protocol_mutations = [SetTxnStatus \<lparr>ts_txn_id = txn, ts_request_key = sample_key,
        ts_request_hash = replicate 32 5, ts_expected_revision = ExpAbsent, ts_next = st\<rparr>],
      cb_terminal_outcome = None, cb_semantic_digest = replicate 32 0\<rparr>"

definition sample_put :: storage_mutation where
  "sample_put = PutMut [1, 9] [42] \<lparr>sm_flags = 0, sm_bytes = []\<rparr>"

lemma sample_batch_verify:
  "batch_verify (\<lambda>_. replicate 32 0) (sample_batch txn [sample_put] (sample_status r PhInstalled)) = Inr ()"
  by (simp add: batch_verify_def sample_batch_def compute_digest_def domain_hash_def sample_put_def
      logical_key_namespace_def kr_namespace_def kr_take_def namespace_from_byte_def is_user_writable_def
      status_validate_def sample_status_def)

theorem verified_batch_sound_witness:
  "mutation_key sample_put \<notin> range protocol_logical_key \<union> range txn_status_key"
  using verified_batch_sound [OF sample_batch_verify [of "replicate 32 9" 1]]
  by (auto simp: sample_batch_def)

section \<open>The phase machine\<close>

fun phase_rank :: "txn_phase \<Rightarrow> nat" where
  "phase_rank PhBound = 0"
| "phase_rank PhAdmitted = 1"
| "phase_rank PhPrepared = 2"
| "phase_rank PhInstalled = 3"
| "phase_rank PhAborted = 3"
| "phase_rank PhTerminal = 4"

lemma phase_rank_le: "phase_rank p \<le> 4"
  by (cases p) simp_all

lemma validate_transition_Some:
  assumes "validate_transition (Some p) n = Inr ()"
  shows "phase_can_advance_to (st_phase p) (st_phase n)" "st_revision n = st_revision p + 1"
    and "st_plan n = st_plan p" "st_idc_bindings n = st_idc_bindings p"
  using assms by (auto simp: validate_transition_def rbind_eq_Inr_iff split: if_splits)

lemma phase_advance_rank: "phase_can_advance_to p n \<Longrightarrow> phase_rank p < phase_rank n"
  by (auto simp: phase_can_advance_to_def)

lemma status_chain_rank:
  "successively (\<lambda>p n. validate_transition (Some p) n = Inr ()) (r # rs) \<Longrightarrow>
     phase_rank (st_phase r) + length rs \<le> phase_rank (st_phase (last (r # rs)))"
proof (induction rs arbitrary: r)
  case (Cons n rs)
  then have "phase_rank (st_phase r) < phase_rank (st_phase n)"
    by (auto dest: validate_transition_Some(1) phase_advance_rank)
  with Cons show ?case by fastforce
qed simp

lemma status_chain_plan:
  "successively (\<lambda>p n. validate_transition (Some p) n = Inr ()) (r # rs) \<Longrightarrow> n \<in> set rs \<Longrightarrow>
     st_plan n = st_plan r \<and> st_idc_bindings n = st_idc_bindings r"
  by (induction rs arbitrary: r) (auto dest: validate_transition_Some(3,4))

lemma status_chain:
  assumes "successively (\<lambda>p n. validate_transition (Some p) n = Inr ()) rs"
  shows "length rs \<le> 5"
    and "i < length rs \<Longrightarrow> st_phase (rs ! i) = PhTerminal \<Longrightarrow> i = length rs - 1"
    and "i < length rs \<Longrightarrow> st_plan (rs ! i) = st_plan (hd rs) \<and> st_idc_bindings (rs ! i) = st_idc_bindings (hd rs)"
proof -
  show "length rs \<le> 5"
  proof (cases rs)
    case (Cons r rs')
    with assms status_chain_rank [of r rs'] phase_rank_le [of "st_phase (last (r # rs'))"] show ?thesis by simp
  qed simp
  show "i = length rs - 1" if "i < length rs" "st_phase (rs ! i) = PhTerminal"
  proof -
    have "successively (\<lambda>p n. validate_transition (Some p) n = Inr ()) (rs ! i # drop (Suc i) rs)"
      using assms by (metis Cons_nth_drop_Suc append_take_drop_id successively_append_iff that(1))
    from status_chain_rank [OF this] phase_rank_le [of "st_phase (last (rs ! i # drop (Suc i) rs))"]
    have "length (drop (Suc i) rs) = 0" using that(2) by simp
    with that(1) show ?thesis by simp
  qed
  show "st_plan (rs ! i) = st_plan (hd rs) \<and> st_idc_bindings (rs ! i) = st_idc_bindings (hd rs)" if "i < length rs"
  proof (cases rs)
    case (Cons r rs')
    with that assms status_chain_plan [of r rs' "rs ! i"] show ?thesis by (cases i) simp_all
  qed (use that in simp)
qed

text \<open>
  C34: the status of a transaction settles: a sequence of accepted transitions has at most five records,
  a record in the terminal phase is the last one, and the plan and bindings never change.
\<close>

theorem status_chain_terminates:
  assumes "successively (\<lambda>p n. validate_transition (Some p) n = Inr ()) rs"
  shows "length rs \<le> 5 \<and>
    (\<forall>i < length rs. (st_phase (rs ! i) = PhTerminal \<longrightarrow> i = length rs - 1) \<and>
       st_plan (rs ! i) = st_plan (hd rs) \<and> st_idc_bindings (rs ! i) = st_idc_bindings (hd rs))"
  using status_chain [OF assms] by blast

definition sample_chain :: "status_record list" where
  "sample_chain = [sample_status 1 PhBound, sample_status 2 PhAdmitted, sample_status 3 PhPrepared, sample_status 4 PhAborted]"

theorem status_chain_terminates_witness:
  "successively (\<lambda>p n. validate_transition (Some p) n = Inr ()) sample_chain \<and> length sample_chain \<le> 5"
proof -
  have "successively (\<lambda>p n. validate_transition (Some p) n = Inr ()) sample_chain"
    by (simp add: sample_chain_def sample_status_def validate_transition_def status_validate_def phase_can_advance_to_def)
  with status_chain_terminates [OF this] show ?thesis by blast
qed

end
