(* ===== verification/OrderedMap.thy ===== *)
theory OrderedMap
  imports Carolina_Prelude
begin

text \<open>
  The ordered map of the standard library (\<^verbatim>\<open>BTreeMap\<close>) as the list of its entries in ascending key
  order. The locale \<open>ordered_map\<close> is the contract the components use; it is instantiated by the list
  operations below.
\<close>

type_synonym ('k, 'v) btree_map = "('k \<times> 'v) list"

definition bt_get :: "('k, 'v) btree_map \<Rightarrow> 'k \<Rightarrow> 'v option" where
  "bt_get m k = map_of m k"

fun bt_insert :: "'k :: linorder \<Rightarrow> 'v \<Rightarrow> ('k, 'v) btree_map \<Rightarrow> ('k, 'v) btree_map" where
  "bt_insert k v [] = [(k, v)]"
| "bt_insert k v ((k', v') # m) =
     (if k < k' then (k, v) # (k', v') # m
      else if k = k' then (k, v) # m
      else (k', v') # bt_insert k v m)"

definition bt_remove :: "'k \<Rightarrow> ('k, 'v) btree_map \<Rightarrow> ('k, 'v) btree_map" where
  "bt_remove k m = filter (\<lambda>(k', _). k' \<noteq> k) m"

definition bt_retain :: "('k \<Rightarrow> 'v \<Rightarrow> bool) \<Rightarrow> ('k, 'v) btree_map \<Rightarrow> ('k, 'v) btree_map" where
  "bt_retain P m = filter (\<lambda>(k, v). P k v) m"

definition bt_map :: "('v \<Rightarrow> 'w) \<Rightarrow> ('k, 'v) btree_map \<Rightarrow> ('k, 'w) btree_map" where
  "bt_map f m = map (\<lambda>(k, v). (k, f v)) m"

definition bt_from :: "'k :: linorder \<Rightarrow> ('k, 'v) btree_map \<Rightarrow> ('k, 'v) btree_map" where
  "bt_from start m = dropWhile (\<lambda>(k, _). k < start) m"

definition bt_ok :: "('k :: linorder, 'v) btree_map \<Rightarrow> bool" where
  "bt_ok m \<longleftrightarrow> sorted_wrt (<) (map fst m)"

lemma bt_get_empty [simp]: "bt_get [] k = None"
  by (simp add: bt_get_def)

lemma bt_ok_empty [simp]: "bt_ok []"
  by (simp add: bt_ok_def)

lemma bt_insert_keys: "fst ` set (bt_insert k v m) = insert k (fst ` set m)"
  by (induction k v m rule: bt_insert.induct) auto

lemma bt_ok_insert [simp]: "bt_ok m \<Longrightarrow> bt_ok (bt_insert k v m)"
proof (induction k v m rule: bt_insert.induct)
  case (2 k v k' v' m)
  have "set (map fst (bt_insert k v m)) = insert k (fst ` set m)" by (simp add: bt_insert_keys)
  with 2 show ?case by (auto simp: bt_ok_def simp flip: set_map dest: order.strict_trans)
qed (simp add: bt_ok_def)

lemma bt_get_insert [simp]: "bt_get (bt_insert k v m) k' = (if k' = k then Some v else bt_get m k')"
  by (induction k v m rule: bt_insert.induct) (auto simp: bt_get_def)

lemma bt_ok_filter: "bt_ok m \<Longrightarrow> bt_ok (filter P m)"
  by (simp add: bt_ok_def sorted_wrt_map sorted_wrt_filter)

lemma bt_ok_remove [simp]: "bt_ok m \<Longrightarrow> bt_ok (bt_remove k m)"
  by (simp add: bt_remove_def bt_ok_filter)

lemma bt_ok_retain [simp]: "bt_ok m \<Longrightarrow> bt_ok (bt_retain P m)"
  by (simp add: bt_retain_def bt_ok_filter)

lemma bt_ok_map [simp]: "bt_ok (bt_map f m) \<longleftrightarrow> bt_ok m"
  by (simp add: bt_ok_def bt_map_def comp_def case_prod_beta)

lemma bt_get_remove [simp]: "bt_get (bt_remove k m) k' = (if k' = k then None else bt_get m k')"
  by (induction m) (auto simp: bt_get_def bt_remove_def)

lemma bt_get_map [simp]: "bt_get (bt_map f m) k = map_option f (bt_get m k)"
  by (induction m) (auto simp: bt_get_def bt_map_def)

lemma bt_get_Some_iff: "bt_ok m \<Longrightarrow> bt_get m k = Some v \<longleftrightarrow> (k, v) \<in> set m"
  unfolding bt_get_def bt_ok_def by (simp add: strict_sorted_iff)

lemma bt_get_retain [simp]:
  assumes "bt_ok m"
  shows "bt_get (bt_retain P m) k = (case bt_get m k of None \<Rightarrow> None | Some v \<Rightarrow> if P k v then Some v else None)"
proof -
  have iff: "bt_get (bt_retain P m) k = Some v \<longleftrightarrow> bt_get m k = Some v \<and> P k v" for v
    using assms bt_get_Some_iff [OF bt_ok_retain [OF assms]] bt_get_Some_iff [OF assms]
    by (simp add: bt_retain_def)
  show ?thesis
  proof (cases "bt_get (bt_retain P m) k")
    case None
    with iff show ?thesis by (cases "bt_get m k") auto
  next
    case (Some v)
    then have "bt_get m k = Some v" "P k v" by (simp_all only: iff)
    with Some show ?thesis by simp
  qed
qed

lemma bt_from_filter: "bt_ok m \<Longrightarrow> bt_from start m = filter (\<lambda>(k, _). start \<le> k) m"
proof (induction m)
  case (Cons kv m)
  obtain k v where [simp]: "kv = (k, v)" by (cases kv)
  have "start \<le> k'" if "start \<le> k" "(k', v') \<in> set m" for k' v'
    using that Cons.prems by (force simp: bt_ok_def)
  with Cons show ?case
    by (auto simp: bt_from_def bt_ok_def intro!: filter_True [symmetric])
qed (simp add: bt_from_def)

locale ordered_map =
  fixes get :: "'m \<Rightarrow> 'k :: linorder \<Rightarrow> 'v option"
    and put :: "'k \<Rightarrow> 'v \<Rightarrow> 'm \<Rightarrow> 'm"
    and del :: "'k \<Rightarrow> 'm \<Rightarrow> 'm"
    and entries :: "'m \<Rightarrow> ('k \<times> 'v) list"
    and ok :: "'m \<Rightarrow> bool"
  assumes get_put: "get (put k v m) k' = (if k' = k then Some v else get m k')"
    and get_del: "get (del k m) k' = (if k' = k then None else get m k')"
    and ok_put: "ok m \<Longrightarrow> ok (put k v m)"
    and ok_del: "ok m \<Longrightarrow> ok (del k m)"
    and entries_ascending: "ok m \<Longrightarrow> sorted_wrt (<) (map fst (entries m))"
    and entries_get: "ok m \<Longrightarrow> (k, v) \<in> set (entries m) \<longleftrightarrow> get m k = Some v"
begin

lemma entries_determined: "ok m \<Longrightarrow> ok m' \<Longrightarrow> get m = get m' \<Longrightarrow> entries m = entries m'"
proof -
  assume m: "ok m" "ok m'" "get m = get m'"
  then have "set (entries m) = set (entries m')" by (simp add: set_eq_iff entries_get)
  moreover have "distinct (map fst (entries m))" "distinct (map fst (entries m'))"
    using m entries_ascending by (simp_all add: strict_sorted_iff)
  moreover have "sorted (map fst (entries m))" "sorted (map fst (entries m'))"
    using m entries_ascending by (simp_all add: strict_sorted_imp_sorted)
  ultimately show ?thesis
    by (intro map_sorted_distinct_set_unique [of fst]) (simp_all add: distinct_map)
qed

lemma put_put: "ok m \<Longrightarrow> entries (put k v (put k w m)) = entries (put k v m)"
  by (rule entries_determined) (auto simp: ok_put get_put)

lemma put_commute: "ok m \<Longrightarrow> k \<noteq> k' \<Longrightarrow> entries (put k v (put k' w m)) = entries (put k' w (put k v m))"
  by (rule entries_determined) (auto simp: ok_put get_put)

lemma del_put: "ok m \<Longrightarrow> entries (del k (put k v m)) = entries (del k m)"
  by (rule entries_determined) (auto simp: ok_put ok_del get_put get_del)

end

interpretation bt: ordered_map bt_get bt_insert bt_remove "\<lambda>m. m" bt_ok
  by unfold_locales (simp_all add: bt_get_Some_iff, simp add: bt_ok_def)

end
