(* ===== verification/MemKernel.thy ===== *)
theory MemKernel
  imports Batch OrderedMap
begin

text \<open>
  The reference storage kernel of \<^verbatim>\<open>memkernel.rs\<close>: multi-version values, compare-and-set protocol
  records, transaction statuses and prepared batches, with a simulated durability barrier and crash.
  A method that can fail returns the kernel it leaves behind together with its result, because a
  refused call may still have changed the kernel. Sequence numbers wrap, as in the release profile.
\<close>

section \<open>State\<close>

record mem_version =
  ver_seq :: u64
  ver_value :: "bytes option"
  ver_durable :: bool

record mem_kernel =
  mk_versions :: "(bytes, mem_version list) btree_map"
  mk_records :: "(bytes, revision \<times> versioned_record \<times> bool) btree_map"
  mk_statuses :: "(txn_id, status_record \<times> bool) btree_map"
  mk_prepared :: "(txn_id, compiled_batch \<times> bool) btree_map"
  mk_next_seq :: u64
  mk_durable_seq :: u64
  mk_sync_each_commit :: bool
  mk_commits :: u64

type_synonym 'a mem_result = "mem_kernel \<times> (exc + 'a)"

definition mem_new :: mem_kernel where
  "mem_new = \<lparr>mk_versions = [], mk_records = [], mk_statuses = [], mk_prepared = [], mk_next_seq = 1,
     mk_durable_seq = 0, mk_sync_each_commit = True, mk_commits = 0\<rparr>"

definition mem_sync :: "mem_kernel \<Rightarrow> mem_kernel" where
  "mem_sync k = k\<lparr>
     mk_versions := bt_map (map (\<lambda>v. v\<lparr>ver_durable := True\<rparr>)) (mk_versions k),
     mk_records := bt_map (\<lambda>(r, rec, _). (r, rec, True)) (mk_records k),
     mk_statuses := bt_map (\<lambda>(s, _). (s, True)) (mk_statuses k),
     mk_prepared := bt_map (\<lambda>(b, _). (b, True)) (mk_prepared k),
     mk_durable_seq := mk_next_seq k - 1\<rparr>"

definition mem_crash :: "mem_kernel \<Rightarrow> mem_kernel" where
  "mem_crash k = k\<lparr>
     mk_versions := bt_retain (\<lambda>_ vs. vs \<noteq> []) (bt_map (filter ver_durable) (mk_versions k)),
     mk_records := bt_retain (\<lambda>_ (_, _, d). d) (mk_records k),
     mk_statuses := bt_retain (\<lambda>_ (_, d). d) (mk_statuses k),
     mk_prepared := bt_retain (\<lambda>_ (_, d). d) (mk_prepared k),
     mk_next_seq := mk_durable_seq k + 1\<rparr>"

definition newest_visible :: "mem_kernel \<Rightarrow> bytes \<Rightarrow> u64 \<Rightarrow> mem_version option" where
  "newest_visible k key visible =
     (case bt_get (mk_versions k) key of None \<Rightarrow> None
      | Some vs \<Rightarrow> find (\<lambda>v. ver_seq v \<le> visible) (rev vs))"

section \<open>Validation and installation\<close>

definition validate_record :: "mem_kernel \<Rightarrow> record_write \<Rightarrow> unit core_result" where
  "validate_record k w =
     (case (rw_expected w, bt_get (mk_records k) (protocol_logical_key (rw_key w))) of
        (ExpAbsent, None) \<Rightarrow> Inr ()
      | (ExpAbsent, Some (_, ex, _)) \<Rightarrow> if ex = rw_next w then Inr () else Inl Conflict
      | (ExpExact r, Some (cur, _, _)) \<Rightarrow> if r = cur then Inr () else Inl Conflict
      | (ExpExact _, None) \<Rightarrow> Inl Conflict)"

definition validate_status :: "mem_kernel \<Rightarrow> status_transition \<Rightarrow> unit core_result" where
  "validate_status k t =
     (let prev = map_option fst (bt_get (mk_statuses k) (ts_txn_id t)) in
      case (ts_expected_revision t, prev) of
        (ExpAbsent, None) \<Rightarrow> validate_transition prev (ts_next t)
      | (ExpAbsent, Some p) \<Rightarrow> if p = ts_next t then Inr () else Inl Conflict
      | (ExpExact r, Some p) \<Rightarrow>
          if r = st_revision p then validate_transition prev (ts_next t) else Inl Conflict
      | (ExpExact _, None) \<Rightarrow> Inl Conflict)"

fun mem_validate :: "mem_kernel \<Rightarrow> protocol_mutation list \<Rightarrow> unit core_result" where
  "mem_validate k [] = Inr ()"
| "mem_validate k (PutRecord w # pms) = rbind (validate_record k w) (\<lambda>_. mem_validate k pms)"
| "mem_validate k (SetTxnStatus t # pms) = rbind (validate_status k t) (\<lambda>_. mem_validate k pms)"

fun mutation_value :: "storage_mutation \<Rightarrow> bytes option" where
  "mutation_value (PutMut _ val _) = Some val"
| "mutation_value (DeleteMut _ _) = None"

definition install_mutation :: "u64 \<Rightarrow> storage_mutation \<Rightarrow> mem_kernel \<Rightarrow> mem_kernel" where
  "install_mutation seq m k =
     (let vs = (case bt_get (mk_versions k) (mutation_key m) of None \<Rightarrow> [] | Some vs \<Rightarrow> vs)
      in k\<lparr>mk_versions := bt_insert (mutation_key m)
             (vs @ [\<lparr>ver_seq = seq, ver_value = mutation_value m, ver_durable = False\<rparr>]) (mk_versions k)\<rparr>)"

fun install_protocol :: "protocol_mutation \<Rightarrow> mem_kernel \<Rightarrow> mem_kernel" where
  "install_protocol (PutRecord w) k =
     (let lk = protocol_logical_key (rw_key w);
          r = (case rw_expected w of
                 ExpAbsent \<Rightarrow> (case bt_get (mk_records k) lk of
                                None \<Rightarrow> 1
                              | Some (r, ex, _) \<Rightarrow> if ex = rw_next w then r else 1)
               | ExpExact r \<Rightarrow> r + 1)
      in k\<lparr>mk_records := bt_insert lk (r, rw_next w, False) (mk_records k)\<rparr>)"
| "install_protocol (SetTxnStatus t) k =
     k\<lparr>mk_statuses := bt_insert (ts_txn_id t) (ts_next t, False) (mk_statuses k)\<rparr>"

definition mem_install :: "compiled_batch \<Rightarrow> u64 \<Rightarrow> mem_kernel \<Rightarrow> mem_kernel" where
  "mem_install b seq k =
     fold install_protocol (cb_protocol_mutations b) (fold (install_mutation seq) (cb_mutations b) k)"

definition status_template :: "compiled_batch \<Rightarrow> status_record" where
  "status_template b =
     (case List.find (\<lambda>pm. case pm of SetTxnStatus t \<Rightarrow> ts_txn_id t = cb_txn_id b | PutRecord _ \<Rightarrow> False)
             (cb_protocol_mutations b) of
        Some (SetTxnStatus t) \<Rightarrow> ts_next t
      | _ \<Rightarrow> \<lparr>st_revision = 1, st_phase = PhPrepared, st_plan = cb_plan b, st_idc_bindings = cb_idc_bindings b,
             st_prepared_digest = Some (cb_semantic_digest b), st_decision_ref = None,
             st_accepted_result = None, st_terminal_outcome = None\<rparr>)"

definition decision_status :: "compiled_batch \<Rightarrow> protocol_record_ref \<Rightarrow> bool \<Rightarrow> status_record" where
  "decision_status b ref aborted =
     (let r = (status_template b)\<lparr>st_decision_ref := Some ref\<rparr> in
      if aborted then r\<lparr>st_phase := PhAborted, st_terminal_outcome := None\<rparr>
      else case cb_terminal_outcome b of
             Some t \<Rightarrow> r\<lparr>st_phase := PhTerminal, st_terminal_outcome := Some t\<rparr>
           | None \<Rightarrow> r\<lparr>st_phase := PhInstalled, st_terminal_outcome := None\<rparr>)"

definition record_decision :: "compiled_batch \<Rightarrow> protocol_record_ref \<Rightarrow> bool \<Rightarrow> mem_kernel \<Rightarrow> mem_kernel" where
  "record_decision b ref aborted k =
     k\<lparr>mk_statuses := bt_insert (cb_txn_id b) (decision_status b ref aborted, False) (mk_statuses k)\<rparr>"

definition decided_error :: "mem_kernel \<Rightarrow> txn_id \<Rightarrow> error_code" where
  "decided_error k txn =
     (case map_option (st_phase \<circ> fst) (bt_get (mk_statuses k) txn) of
        Some PhInstalled \<Rightarrow> TxnAlreadyCommitted
      | Some PhTerminal \<Rightarrow> TxnAlreadyCommitted
      | Some PhAborted \<Rightarrow> TxnAlreadyAborted
      | _ \<Rightarrow> TxnInDoubt)"

section \<open>The kernel interface\<close>

record local_snapshot =
  sn_epoch :: u64
  sn_visible_seq :: u64

record commit_result =
  cm_txn_id :: "txn_id option"
  cm_epoch :: u64
  cm_seq :: u64
  cm_journal_lsn :: u64
  cm_local_durable :: bool
  cm_stored_evidence :: "protocol_record_ref list"

record prepared_token =
  pt_txn_id :: txn_id
  pt_lsn :: u64
  pt_digest :: hash256

record request_evidence =
  re_binding :: "request_binding option"
  re_status :: "status_record option"
  re_in_doubt :: bool

datatype readiness =
    Opening | RecoveringLocal | WaitingProtocolReconciliation | Ready | DegradedStorage | ReadOnlySafety | Failed

definition mem_readiness :: "mem_kernel \<Rightarrow> readiness" where
  "mem_readiness k = (if mk_prepared k = [] then Ready else WaitingProtocolReconciliation)"

definition mem_snapshot :: "mem_kernel \<Rightarrow> local_snapshot" where
  "mem_snapshot k = \<lparr>sn_epoch = 1, sn_visible_seq = mk_durable_seq k\<rparr>"

definition mem_get :: "mem_kernel \<Rightarrow> logical_key \<Rightarrow> local_snapshot \<Rightarrow> bytes option" where
  "mem_get k key snap = Option.bind (newest_visible k key (sn_visible_seq snap)) ver_value"

fun scan_loop ::
  "mem_kernel \<Rightarrow> bytes option \<Rightarrow> u64 \<Rightarrow> nat \<Rightarrow> (logical_key \<times> bytes) list \<Rightarrow> bytes list \<Rightarrow> (logical_key \<times> bytes) list" where
  "scan_loop k stop visible limit out [] = out"
| "scan_loop k stop visible limit out (key # keys) =
     (if (case stop of Some e \<Rightarrow> e \<le> key | None \<Rightarrow> False) then out
      else case Option.bind (newest_visible k key visible) ver_value of
             None \<Rightarrow> scan_loop k stop visible limit out keys
           | Some val \<Rightarrow>
               let out' = out @ [(key, val)] in
               if limit \<le> length out' then out' else scan_loop k stop visible limit out' keys)"

definition mem_scan ::
  "mem_kernel \<Rightarrow> bytes \<Rightarrow> bytes option \<Rightarrow> local_snapshot \<Rightarrow> nat \<Rightarrow> (logical_key \<times> bytes) list" where
  "mem_scan k start stop snap limit =
     scan_loop k stop (sn_visible_seq snap) limit [] (map fst (bt_from start (mk_versions k)))"

definition sync_if_configured :: "mem_kernel \<Rightarrow> mem_kernel" where
  "sync_if_configured k = (if mk_sync_each_commit k then mem_sync k else k)"

definition unsafe_result :: "txn_id option \<Rightarrow> u64 \<Rightarrow> commit_result" where
  "unsafe_result txn seq =
     \<lparr>cm_txn_id = txn, cm_epoch = 1, cm_seq = seq, cm_journal_lsn = seq, cm_local_durable = False,
      cm_stored_evidence = []\<rparr>"

definition mem_commit :: "(bytes \<Rightarrow> hash256) \<Rightarrow> compiled_batch \<Rightarrow> mem_kernel \<Rightarrow> commit_result mem_result" where
  "mem_commit sha b k =
     (case batch_check sha b of Inl e \<Rightarrow> (k, Inl e) | Inr _ \<Rightarrow>
      case map_option (st_phase \<circ> fst) (bt_get (mk_statuses k) (cb_txn_id b)) of
        Some PhAborted \<Rightarrow> (k, Inl (Fail TxnAlreadyAborted))
      | Some PhInstalled \<Rightarrow> (k, Inl (Fail TxnAlreadyCommitted))
      | Some PhTerminal \<Rightarrow> (k, Inl (Fail TxnAlreadyCommitted))
      | _ \<Rightarrow>
        (case mem_validate k (cb_protocol_mutations b) of Inl e \<Rightarrow> (k, Inl (Fail e)) | Inr _ \<Rightarrow>
         let seq = mk_next_seq k;
             k1 = sync_if_configured (mem_install b seq (k\<lparr>mk_next_seq := seq + 1\<rparr>))
         in (k1\<lparr>mk_commits := mk_commits k1 + 1\<rparr>, Inr (unsafe_result (Some (cb_txn_id b)) seq))))"

definition fake_batch :: "protocol_mutation list \<Rightarrow> compiled_batch" where
  "fake_batch pms =
     \<lparr>cb_batch_version = 1, cb_txn_id = replicate 32 0,
      cb_request_key = \<lparr>rk_tenant_id = replicate 16 0, rk_request_namespace = replicate 16 0,
                        rk_stable_request_id = replicate 16 0\<rparr>,
      cb_request_hash = replicate 32 0, cb_operation = \<lparr>or_operation_id = 0, or_version = 0\<rparr>,
      cb_operation_hash = replicate 32 0, cb_contract_hash = replicate 32 0, cb_schema_hash = replicate 32 0,
      cb_plan = \<lparr>pr_plan_id = replicate 16 0, pr_generation = 0, pr_hash = replicate 32 0\<rparr>,
      cb_idc_bindings = [], cb_consistency_class = C0Local, cb_origin = None, cb_semantic_evidence = [],
      cb_captured_inputs = [], cb_mutations = [], cb_protocol_mutations = pms, cb_terminal_outcome = None,
      cb_semantic_digest = replicate 32 0\<rparr>"

definition mem_commit_protocol :: "protocol_only_batch \<Rightarrow> mem_kernel \<Rightarrow> commit_result mem_result" where
  "mem_commit_protocol b k =
     (let pms = map PutRecord (po_writes b) in
      case mem_validate k pms of Inl e \<Rightarrow> (k, Inl (Fail e)) | Inr _ \<Rightarrow>
      let seq = mk_next_seq k
      in (sync_if_configured (mem_install (fake_batch pms) seq (k\<lparr>mk_next_seq := seq + 1\<rparr>)),
          Inr (unsafe_result None seq)))"

definition mem_prepare :: "(bytes \<Rightarrow> hash256) \<Rightarrow> compiled_batch \<Rightarrow> mem_kernel \<Rightarrow> prepared_token mem_result" where
  "mem_prepare sha b k =
     (case batch_check sha b of Inl e \<Rightarrow> (k, Inl e) | Inr _ \<Rightarrow>
      case mem_validate k (cb_protocol_mutations b) of Inl e \<Rightarrow> (k, Inl (Fail e)) | Inr _ \<Rightarrow>
      let k1 = sync_if_configured (k\<lparr>mk_prepared := bt_insert (cb_txn_id b) (b, False) (mk_prepared k)\<rparr>)
      in (k1, Inr \<lparr>pt_txn_id = cb_txn_id b, pt_lsn = mk_next_seq k1, pt_digest = cb_semantic_digest b\<rparr>))"

definition mem_commit_prepared ::
  "prepared_token \<Rightarrow> protocol_record_ref \<Rightarrow> mem_kernel \<Rightarrow> commit_result mem_result" where
  "mem_commit_prepared token ref k =
     (case bt_get (mk_prepared k) (pt_txn_id token) of
        None \<Rightarrow> (k, Inl (Fail (decided_error k (pt_txn_id token))))
      | Some (b, _) \<Rightarrow>
          let k1 = k\<lparr>mk_prepared := bt_remove (pt_txn_id token) (mk_prepared k)\<rparr> in
          if cb_semantic_digest b \<noteq> pt_digest token
          then (k1\<lparr>mk_prepared := bt_insert (pt_txn_id token) (b, False) (mk_prepared k1)\<rparr>,
                Inl (Fail IdentityMismatch))
          else let seq = mk_next_seq k1;
                   k2 = record_decision b ref False (mem_install b seq (k1\<lparr>mk_next_seq := seq + 1\<rparr>))
               in (sync_if_configured k2, Inr (unsafe_result (Some (pt_txn_id token)) seq)))"

definition mem_abort_prepared :: "prepared_token \<Rightarrow> protocol_record_ref \<Rightarrow> mem_kernel \<Rightarrow> unit mem_result" where
  "mem_abort_prepared token ref k =
     (case bt_get (mk_prepared k) (pt_txn_id token) of
        None \<Rightarrow> (k, Inl (Fail (decided_error k (pt_txn_id token))))
      | Some (b, _) \<Rightarrow>
          let k1 = k\<lparr>mk_prepared := bt_remove (pt_txn_id token) (mk_prepared k)\<rparr> in
          if cb_semantic_digest b \<noteq> pt_digest token
          then (k1\<lparr>mk_prepared := bt_insert (pt_txn_id token) (b, False) (mk_prepared k1)\<rparr>,
                Inl (Fail IdentityMismatch))
          else (sync_if_configured (record_decision b ref True (k1\<lparr>mk_next_seq := mk_next_seq k1 + 1\<rparr>)), Inr ()))"

definition mem_in_doubt :: "mem_kernel \<Rightarrow> prepared_token list" where
  "mem_in_doubt k =
     map (\<lambda>(t, b, _). \<lparr>pt_txn_id = t, pt_lsn = 0, pt_digest = cb_semantic_digest b\<rparr>) (mk_prepared k)"

definition mem_resolve :: "(bytes \<Rightarrow> hash256) \<Rightarrow> mem_kernel \<Rightarrow> request_key \<Rightarrow> request_evidence core_result" where
  "mem_resolve sha k req =
     rbind (case bt_get (mk_records k) (protocol_logical_key (request_binding_record_key req)) of
              None \<Rightarrow> Inr None
            | Some (_, rec, _) \<Rightarrow>
                rbind (typed_decode request_binding_to_canon (request_binding_from_canon sha)
                         (vr_canonical_payload rec) limits_v1) (\<lambda>b. Inr (Some b)))
       (\<lambda>binding. Inr (case binding of
            None \<Rightarrow> \<lparr>re_binding = None, re_status = None, re_in_doubt = False\<rparr>
          | Some b \<Rightarrow> \<lparr>re_binding = binding, re_status = map_option fst (bt_get (mk_statuses k) (rb_txn_id b)),
                       re_in_doubt = bt_get (mk_prepared k) (rb_txn_id b) \<noteq> None\<rparr>))"

definition mem_read_protocol_record :: "mem_kernel \<Rightarrow> protocol_record_key \<Rightarrow> (revision \<times> versioned_record) option" where
  "mem_read_protocol_record k key =
     map_option (\<lambda>(r, rec, _). (r, rec)) (bt_get (mk_records k) (protocol_logical_key key))"

definition mem_txn_status :: "mem_kernel \<Rightarrow> txn_id \<Rightarrow> status_record option" where
  "mem_txn_status k txn = map_option fst (bt_get (mk_statuses k) txn)"

definition le_len :: "bytes \<Rightarrow> bytes" where
  "le_len bs = rev (u32_be (of_nat (length bs)))"

definition mem_digest :: "(bytes \<Rightarrow> hash256) \<Rightarrow> mem_kernel \<Rightarrow> hash256" where
  "mem_digest sha k =
     sha (concat (map (\<lambda>(key, vs).
       case Option.bind (List.find (\<lambda>v. ver_seq v \<le> mk_durable_seq k) (rev vs)) ver_value of
         None \<Rightarrow> [] | Some val \<Rightarrow> le_len key @ key @ le_len val @ val) (mk_versions k)))"

record kernel_capabilities =
  kc_durable_prepare :: bool
  kc_atomic_metadata_and_result :: bool
  kc_recoverable_semantic_records :: bool
  kc_registered_snapshots :: bool
  kc_retained_references :: bool
  kc_local_crash_durability :: bool

definition mem_capabilities :: kernel_capabilities where
  "mem_capabilities =
     \<lparr>kc_durable_prepare = True, kc_atomic_metadata_and_result = True, kc_recoverable_semantic_records = True,
      kc_registered_snapshots = True, kc_retained_references = True, kc_local_crash_durability = False\<rparr>"

record checkpoint_info =
  ci_checkpoint_lsn :: u64
  ci_checkpoint_commit_seq :: u64
  ci_root_page_id :: u64
  ci_manifest_generation :: u64
  ci_pages_written :: u64

definition mem_checkpoint :: "mem_kernel \<Rightarrow> checkpoint_info" where
  "mem_checkpoint k =
     \<lparr>ci_checkpoint_lsn = mk_durable_seq k, ci_checkpoint_commit_seq = mk_durable_seq k, ci_root_page_id = 0,
      ci_manifest_generation = 0, ci_pages_written = 0\<rparr>"

record verify_report =
  vp_pages :: u64
  vp_leaves :: u64
  vp_entries :: u64
  vp_journal_frames :: u64
  vp_prepared_in_doubt :: u64

definition mem_verify :: "mem_kernel \<Rightarrow> verify_report" where
  "mem_verify k =
     \<lparr>vp_pages = 0, vp_leaves = 0, vp_entries = sum_list (map (\<lambda>(_, vs). of_nat (length vs)) (mk_versions k)),
      vp_journal_frames = 0, vp_prepared_in_doubt = of_nat (length (mk_prepared k))\<rparr>"

section \<open>Visible values\<close>

definition visible_value :: "mem_kernel \<Rightarrow> u64 \<Rightarrow> bytes \<Rightarrow> bytes option" where
  "visible_value k visible key = Option.bind (newest_visible k key visible) ver_value"

definition apply_mutation :: "storage_mutation \<Rightarrow> (bytes \<Rightarrow> bytes option) \<Rightarrow> bytes \<Rightarrow> bytes option" where
  "apply_mutation m f = f(mutation_key m := mutation_value m)"

lemma visible_install_mutation:
  "visible_value (install_mutation seq m k) visible =
     (if seq \<le> visible then apply_mutation m (visible_value k visible) else visible_value k visible)"
  by (rule ext) (auto simp: visible_value_def newest_visible_def install_mutation_def apply_mutation_def
      Let_def split: option.splits)

lemma visible_install_mutations:
  "visible_value (fold (install_mutation seq) ms k) visible =
     (if seq \<le> visible then fold apply_mutation ms (visible_value k visible) else visible_value k visible)"
  by (induction ms arbitrary: k) (simp_all add: visible_install_mutation)

lemma install_protocol_keeps [simp]:
  "mk_versions (install_protocol pm k) = mk_versions k" "mk_next_seq (install_protocol pm k) = mk_next_seq k"
  "mk_durable_seq (install_protocol pm k) = mk_durable_seq k" "mk_prepared (install_protocol pm k) = mk_prepared k"
  "mk_sync_each_commit (install_protocol pm k) = mk_sync_each_commit k"
  by (cases pm; simp add: Let_def)+

lemma fold_install_protocol_keeps [simp]:
  "mk_versions (fold install_protocol pms k) = mk_versions k"
  "mk_next_seq (fold install_protocol pms k) = mk_next_seq k"
  "mk_durable_seq (fold install_protocol pms k) = mk_durable_seq k"
  "mk_prepared (fold install_protocol pms k) = mk_prepared k"
  "mk_sync_each_commit (fold install_protocol pms k) = mk_sync_each_commit k"
  by (induction pms arbitrary: k) simp_all

lemma install_mutations_keep [simp]:
  "mk_next_seq (fold (install_mutation seq) ms k) = mk_next_seq k"
  "mk_durable_seq (fold (install_mutation seq) ms k) = mk_durable_seq k"
  "mk_prepared (fold (install_mutation seq) ms k) = mk_prepared k"
  "mk_statuses (fold (install_mutation seq) ms k) = mk_statuses k"
  "mk_records (fold (install_mutation seq) ms k) = mk_records k"
  "mk_sync_each_commit (fold (install_mutation seq) ms k) = mk_sync_each_commit k"
  by (induction ms arbitrary: k) (simp_all add: install_mutation_def Let_def)

lemma mem_install_keeps [simp]:
  "mk_next_seq (mem_install b seq k) = mk_next_seq k" "mk_durable_seq (mem_install b seq k) = mk_durable_seq k"
  "mk_prepared (mem_install b seq k) = mk_prepared k"
  "mk_sync_each_commit (mem_install b seq k) = mk_sync_each_commit k"
  by (simp_all add: mem_install_def)

lemma visible_value_cong: "mk_versions k = mk_versions k' \<Longrightarrow> visible_value k = visible_value k'"
  by (intro ext) (simp add: visible_value_def newest_visible_def)

lemma visible_mem_install:
  "visible_value (mem_install b seq k) visible =
     (if seq \<le> visible then fold apply_mutation (cb_mutations b) (visible_value k visible)
      else visible_value k visible)"
  using visible_value_cong [of "mem_install b seq k" "fold (install_mutation seq) (cb_mutations b) k"]
  by (simp add: mem_install_def visible_install_mutations)

lemma find_map_durable:
  "Option.bind (find (\<lambda>v. ver_seq v \<le> n) (map (\<lambda>v. v\<lparr>ver_durable := True\<rparr>) vs)) ver_value =
   Option.bind (find (\<lambda>v. ver_seq v \<le> n) vs) ver_value"
  by (induction vs) simp_all

lemma visible_mem_sync [simp]: "visible_value (mem_sync k) visible key = visible_value k visible key"
  by (simp add: visible_value_def newest_visible_def mem_sync_def rev_map find_map_durable split: option.splits)

section \<open>Invariant\<close>

definition versions_inv :: "mem_kernel \<Rightarrow> bool" where
  "versions_inv k \<longleftrightarrow> bt_ok (mk_versions k) \<and>
     (\<forall>key vs v. bt_get (mk_versions k) key = Some vs \<longrightarrow> v \<in> set vs \<longrightarrow>
        ver_seq v < mk_next_seq k \<and> (ver_durable v \<longleftrightarrow> ver_seq v \<le> mk_durable_seq k))"

definition mem_inv :: "mem_kernel \<Rightarrow> bool" where
  "mem_inv k \<longleftrightarrow> versions_inv k \<and> mk_durable_seq k < mk_next_seq k \<and>
     bt_ok (mk_records k) \<and> bt_ok (mk_statuses k) \<and> bt_ok (mk_prepared k) \<and>
     (\<forall>txn b d. bt_get (mk_prepared k) txn = Some (b, d) \<longrightarrow> cb_txn_id b = txn)"

lemma mem_inv_new: "mem_inv (mem_new\<lparr>mk_sync_each_commit := s\<rparr>)"
  by (simp add: mem_inv_def versions_inv_def mem_new_def)

lemma word_less_iff_pred: "0 < n \<Longrightarrow> s \<le> n - 1 \<longleftrightarrow> s < (n :: u64)"
  by uint_arith

lemma mem_inv_sync:
  assumes "mem_inv k" shows "mem_inv (mem_sync k)"
proof -
  have pos: "0 < mk_next_seq k" using assms by (auto simp: mem_inv_def intro: le_less_trans)
  then have "mk_next_seq k - 1 < mk_next_seq k" by uint_arith
  with assms pos show ?thesis
    by (auto simp: mem_inv_def versions_inv_def mem_sync_def word_less_iff_pred)
qed

lemma mem_inv_crash:
  assumes "mem_inv k" shows "mem_inv (mem_crash k)"
proof -
  have "d < d + 1" if "d < n" for d n :: u64
    using that by uint_arith
  with assms have lt: "mk_durable_seq k < mk_durable_seq k + 1" by (auto simp: mem_inv_def)
  then have "ver_seq v < mk_durable_seq k + 1" if "ver_seq v \<le> mk_durable_seq k" for v
    using that by (rule le_less_trans [rotated])
  with lt assms show ?thesis
    by (auto simp: mem_inv_def versions_inv_def mem_crash_def split: option.splits if_splits)
qed

lemma versions_inv_install_mutation:
  assumes "versions_inv k" "mk_durable_seq k < seq" "seq < mk_next_seq k"
  shows "versions_inv (install_mutation seq m k)"
  using assms
  by (cases "bt_get (mk_versions k) (mutation_key m)")
    (auto simp: versions_inv_def install_mutation_def Let_def split: if_splits)

lemma versions_inv_cong:
  "mk_versions k = mk_versions k' \<Longrightarrow> mk_next_seq k = mk_next_seq k' \<Longrightarrow> mk_durable_seq k = mk_durable_seq k' \<Longrightarrow>
   versions_inv k \<longleftrightarrow> versions_inv k'"
  by (simp add: versions_inv_def)

lemma versions_inv_install:
  assumes "versions_inv k" "mk_durable_seq k < seq" "seq < mk_next_seq k"
  shows "versions_inv (mem_install b seq k)"
proof -
  have "versions_inv (fold (install_mutation seq) ms k)" for ms
    using assms
  proof (induction ms arbitrary: k)
    case (Cons m ms)
    have "mk_durable_seq (install_mutation seq m k) = mk_durable_seq k"
      "mk_next_seq (install_mutation seq m k) = mk_next_seq k"
      by (simp_all add: install_mutation_def Let_def)
    with Cons show ?case by (simp add: versions_inv_install_mutation)
  qed simp
  then show ?thesis
    using versions_inv_cong [of "mem_install b seq k" "fold (install_mutation seq) (cb_mutations b) k"]
    by (simp add: mem_install_def)
qed

lemma install_protocol_ok:
  "bt_ok (mk_records k) \<Longrightarrow> bt_ok (mk_records (install_protocol pm k))"
  "bt_ok (mk_statuses k) \<Longrightarrow> bt_ok (mk_statuses (install_protocol pm k))"
  by (cases pm; simp add: Let_def)+

lemma mem_install_ok:
  "bt_ok (mk_records k) \<Longrightarrow> bt_ok (mk_records (mem_install b seq k))"
  "bt_ok (mk_statuses k) \<Longrightarrow> bt_ok (mk_statuses (mem_install b seq k))"
proof -
  have "bt_ok (mk_records k) \<Longrightarrow> bt_ok (mk_records (fold install_protocol pms k))"
    and "bt_ok (mk_statuses k) \<Longrightarrow> bt_ok (mk_statuses (fold install_protocol pms k))" for pms k
    by (induction pms arbitrary: k) (simp_all add: install_protocol_ok)
  then show "bt_ok (mk_records k) \<Longrightarrow> bt_ok (mk_records (mem_install b seq k))"
    "bt_ok (mk_statuses k) \<Longrightarrow> bt_ok (mk_statuses (mem_install b seq k))"
    by (simp_all add: mem_install_def)
qed

lemma next_seq_less: "n \<noteq> - 1 \<Longrightarrow> n < n + (1 :: u64)"
proof -
  assume "n \<noteq> - 1"
  then have "n + 1 \<noteq> 0" by (simp add: eq_neg_iff_add_eq_0)
  then show ?thesis by uint_arith
qed

lemma versions_inv_bump:
  "versions_inv k \<Longrightarrow> mk_next_seq k \<noteq> - 1 \<Longrightarrow> versions_inv (k\<lparr>mk_next_seq := mk_next_seq k + 1\<rparr>)"
  using next_seq_less [of "mk_next_seq k"] by (auto simp: versions_inv_def intro: less_trans)

lemma mem_inv_bump:
  "mem_inv k \<Longrightarrow> mk_next_seq k \<noteq> - 1 \<Longrightarrow> mem_inv (k\<lparr>mk_next_seq := mk_next_seq k + 1\<rparr>)"
  using next_seq_less [of "mk_next_seq k"] by (auto simp: mem_inv_def versions_inv_bump intro: less_trans)

lemma mem_inv_install:
  assumes "mem_inv k" "mk_next_seq k \<noteq> - 1"
  shows "mem_inv (mem_install b (mk_next_seq k) (k\<lparr>mk_next_seq := mk_next_seq k + 1\<rparr>))"
  using assms mem_inv_bump [OF assms] next_seq_less [OF assms(2)]
  by (simp add: mem_inv_def versions_inv_install mem_install_ok)

lemma mem_inv_record_decision: "mem_inv k \<Longrightarrow> mem_inv (record_decision b ref a k)"
  by (auto simp: mem_inv_def record_decision_def versions_inv_def)

lemma mem_inv_sync_if: "mem_inv k \<Longrightarrow> mem_inv (sync_if_configured k)"
  by (simp add: sync_if_configured_def mem_inv_sync)

lemma mem_inv_prepared:
  "mem_inv k \<Longrightarrow> mem_inv (k\<lparr>mk_prepared := bt_remove txn (mk_prepared k)\<rparr>)"
  "mem_inv k \<Longrightarrow> cb_txn_id b = txn \<Longrightarrow> mem_inv (k\<lparr>mk_prepared := bt_insert txn (b, d) (mk_prepared k)\<rparr>)"
  "mem_inv k \<Longrightarrow> cb_txn_id b = txn \<Longrightarrow>
     mem_inv (k\<lparr>mk_prepared := bt_insert txn (b, d) (bt_remove txn (mk_prepared k))\<rparr>)"
  by (auto simp: mem_inv_def versions_inv_def split: if_splits)

lemma mem_inv_commits: "mem_inv k \<Longrightarrow> mem_inv (k\<lparr>mk_commits := c\<rparr>)"
  by (simp add: mem_inv_def versions_inv_def)

lemmas mem_inv_rules =
  mem_inv_install mem_inv_bump mem_inv_record_decision mem_inv_sync_if mem_inv_prepared mem_inv_commits

section \<open>Runs of the kernel\<close>

datatype mem_op =
    OpCommit compiled_batch
  | OpCommitProtocol protocol_only_batch
  | OpPrepare compiled_batch
  | OpCommitPrepared prepared_token protocol_record_ref
  | OpAbortPrepared prepared_token protocol_record_ref
  | OpSync
  | OpCrash

fun mem_run :: "(bytes \<Rightarrow> hash256) \<Rightarrow> mem_op \<Rightarrow> mem_kernel \<Rightarrow> mem_kernel" where
  "mem_run sha (OpCommit b) k = fst (mem_commit sha b k)"
| "mem_run sha (OpCommitProtocol b) k = fst (mem_commit_protocol b k)"
| "mem_run sha (OpPrepare b) k = fst (mem_prepare sha b k)"
| "mem_run sha (OpCommitPrepared t ref) k = fst (mem_commit_prepared t ref k)"
| "mem_run sha (OpAbortPrepared t ref) k = fst (mem_abort_prepared t ref k)"
| "mem_run sha OpSync k = mem_sync k"
| "mem_run sha OpCrash k = mem_crash k"

lemma commit_cases:
  obtains e where "mem_commit sha b k = (k, Inl e)"
  | "mem_commit sha b k =
       ((sync_if_configured (mem_install b (mk_next_seq k) (k\<lparr>mk_next_seq := mk_next_seq k + 1\<rparr>)))
          \<lparr>mk_commits := mk_commits (sync_if_configured
             (mem_install b (mk_next_seq k) (k\<lparr>mk_next_seq := mk_next_seq k + 1\<rparr>))) + 1\<rparr>,
        Inr (unsafe_result (Some (cb_txn_id b)) (mk_next_seq k)))"
    "batch_verify sha b = Inr ()" "mem_validate k (cb_protocol_mutations b) = Inr ()"
proof -
  define ph where "ph = map_option (st_phase \<circ> fst) (bt_get (mk_statuses k) (cb_txn_id b))"
  note eq = mem_commit_def [of sha b k, folded ph_def]
  show ?thesis
  proof (cases "batch_check sha b")
    case (Inl e)
    then show ?thesis using that(1) by (simp add: eq)
  next
    case checked: (Inr u)
    show ?thesis
    proof (cases "ph \<in> {Some PhAborted, Some PhInstalled, Some PhTerminal}")
      case True
      then show ?thesis using that(1) checked by (auto simp: eq)
    next
      case False
      then have run: "mem_commit sha b k =
        (case mem_validate k (cb_protocol_mutations b) of Inl e \<Rightarrow> (k, Inl (Fail e)) | Inr _ \<Rightarrow>
         let seq = mk_next_seq k;
             k1 = sync_if_configured (mem_install b seq (k\<lparr>mk_next_seq := seq + 1\<rparr>))
         in (k1\<lparr>mk_commits := mk_commits k1 + 1\<rparr>, Inr (unsafe_result (Some (cb_txn_id b)) seq)))"
        using checked by (cases ph; cases "the ph") (simp_all add: eq)
      have "batch_verify sha b = Inr ()"
        using checked by (auto simp: batch_check_def split: if_splits sum.splits)
      with run that show ?thesis
        by (cases "mem_validate k (cb_protocol_mutations b)") (simp_all add: Let_def)
    qed
  qed
qed

lemma mem_inv_run: "mem_inv k \<Longrightarrow> mk_next_seq k \<noteq> - 1 \<Longrightarrow> mem_inv (mem_run sha op k)"
proof (cases op)
  case (OpCommit b)
  assume "mem_inv k" "mk_next_seq k \<noteq> - 1"
  then show ?thesis
    unfolding OpCommit
    by (cases rule: commit_cases [of sha b k]) (simp_all add: mem_inv_rules)
next
  case (OpCommitPrepared t ref)
  assume k: "mem_inv k" "mk_next_seq k \<noteq> - 1"
  moreover have "mem_inv (k\<lparr>mk_prepared := bt_remove (pt_txn_id t) (mk_prepared k)\<rparr>)"
    using k by (simp add: mem_inv_prepared)
  ultimately show ?thesis
    using mem_inv_install [of "k\<lparr>mk_prepared := bt_remove (pt_txn_id t) (mk_prepared k)\<rparr>"]
    by (auto simp: OpCommitPrepared mem_commit_prepared_def Let_def mem_inv_sync_if mem_inv_record_decision
        split: option.splits intro!: mem_inv_prepared) (simp add: mem_inv_def)
next
  case (OpAbortPrepared t ref)
  assume k: "mem_inv k" "mk_next_seq k \<noteq> - 1"
  moreover have "mem_inv (k\<lparr>mk_prepared := bt_remove (pt_txn_id t) (mk_prepared k)\<rparr>)"
    using k by (simp add: mem_inv_prepared)
  ultimately show ?thesis
    using mem_inv_bump [of "k\<lparr>mk_prepared := bt_remove (pt_txn_id t) (mk_prepared k)\<rparr>"]
    by (auto simp: OpAbortPrepared mem_abort_prepared_def Let_def mem_inv_sync_if mem_inv_record_decision
        split: option.splits intro!: mem_inv_prepared) (simp add: mem_inv_def)
qed (auto simp: mem_commit_protocol_def mem_prepare_def Let_def mem_inv_rules mem_inv_sync mem_inv_crash
     split: sum.splits)

lemma sync_keeps [simp]:
  "mk_next_seq (mem_sync k) = mk_next_seq k" "mk_sync_each_commit (mem_sync k) = mk_sync_each_commit k"
  "mk_next_seq (sync_if_configured k) = mk_next_seq k"
  "mk_sync_each_commit (sync_if_configured k) = mk_sync_each_commit k"
  by (simp_all add: mem_sync_def sync_if_configured_def)

lemma record_decision_keeps [simp]:
  "mk_next_seq (record_decision b ref a k) = mk_next_seq k" "mk_durable_seq (record_decision b ref a k) = mk_durable_seq k"
  "mk_versions (record_decision b ref a k) = mk_versions k"
  "mk_sync_each_commit (record_decision b ref a k) = mk_sync_each_commit k"
  by (simp_all add: record_decision_def)

lemma mem_run_sync_flag: "mk_sync_each_commit (mem_run sha op k) = mk_sync_each_commit k"
proof (cases op)
  case (OpCommit b)
  then show ?thesis by (cases rule: commit_cases [of sha b k]) simp_all
qed (auto simp: mem_commit_protocol_def mem_prepare_def mem_commit_prepared_def mem_abort_prepared_def
     mem_crash_def Let_def split: sum.splits option.splits)

lemma mem_run_next_seq:
  assumes "mem_inv k"
  shows "unat (mk_next_seq (mem_run sha op k)) \<le> unat (mk_next_seq k) + 1"
proof -
  have plus: "unat (n + 1) \<le> unat n + 1" for n :: u64
    by (simp add: unat_word_ariths)
  have crash: "unat (mk_durable_seq k + 1) \<le> unat (mk_next_seq k) + 1"
    using plus [of "mk_durable_seq k"] assms by (simp add: mem_inv_def word_less_nat_alt)
  show ?thesis
  proof (cases op)
    case (OpCommit b)
    then show ?thesis by (cases rule: commit_cases [of sha b k]) (simp_all add: plus [simplified])
  qed (use plus crash in \<open>auto simp: mem_commit_protocol_def mem_prepare_def mem_commit_prepared_def
      mem_abort_prepared_def mem_crash_def Let_def split: sum.splits option.splits\<close>)
qed

lemma not_max_seq: "unat n + Suc l < 2 ^ 64 \<Longrightarrow> n \<noteq> (- 1 :: u64)"
  by (auto simp: unsigned_minus_1_eq_mask mask_eq_exp_minus_1)

lemma mem_run_inv_fold:
  assumes "mem_inv k" "unat (mk_next_seq k) + length ops < 2 ^ 64"
  shows "mem_inv (fold (mem_run sha) ops k) \<and>
    unat (mk_next_seq (fold (mem_run sha) ops k)) \<le> unat (mk_next_seq k) + length ops"
  using assms
proof (induction ops arbitrary: k)
  case (Cons op ops)
  have "mk_next_seq k \<noteq> - 1"
    using Cons.prems(2) by (intro not_max_seq) simp
  then have "mem_inv (mem_run sha op k)" using Cons.prems(1) by (rule mem_inv_run [rotated])
  with Cons mem_run_next_seq [OF Cons.prems(1), of sha op] show ?case by fastforce
qed simp

section \<open>Snapshots\<close>

lemma find_filter_implied: "(\<And>x. x \<in> set xs \<Longrightarrow> P x \<Longrightarrow> Q x) \<Longrightarrow> find P (filter Q xs) = find P xs"
  by (induction xs) auto

lemma visible_mem_crash:
  assumes "mem_inv k" "visible \<le> mk_durable_seq k"
  shows "visible_value (mem_crash k) visible key = visible_value k visible key"
proof -
  have ok: "bt_ok (bt_map (filter ver_durable) (mk_versions k))"
    using assms(1) by (simp add: mem_inv_def versions_inv_def)
  show ?thesis
  proof (cases "bt_get (mk_versions k) key")
    case None
    then show ?thesis using ok by (simp add: visible_value_def newest_visible_def mem_crash_def)
  next
    case (Some vs)
    have "find (\<lambda>v. ver_seq v \<le> visible) (rev (filter ver_durable vs)) = find (\<lambda>v. ver_seq v \<le> visible) (rev vs)"
      unfolding rev_filter using assms Some
      by (intro find_filter_implied) (auto simp: mem_inv_def versions_inv_def intro: order_trans)
    then show ?thesis using ok Some
      by (auto simp: visible_value_def newest_visible_def mem_crash_def)
  qed
qed

lemma visible_sync_if [simp]: "visible_value (sync_if_configured k) visible key = visible_value k visible key"
  by (simp add: sync_if_configured_def)

lemma visible_updates [simp]:
  "visible_value (k\<lparr>mk_next_seq := n\<rparr>) = visible_value k" "visible_value (k\<lparr>mk_commits := c\<rparr>) = visible_value k"
  "visible_value (k\<lparr>mk_prepared := p\<rparr>) = visible_value k"
  "visible_value (record_decision b ref a k) = visible_value k"
  by (rule visible_value_cong; simp)+

lemma visible_install_hidden:
  "visible < seq \<Longrightarrow> visible_value (mem_install b seq k) visible = visible_value k visible"
  by (auto simp: visible_mem_install)

lemma mem_run_visible:
  assumes "mem_inv k" "visible \<le> mk_durable_seq k"
  shows "visible_value (mem_run sha op k) visible key = visible_value k visible key"
proof -
  have hidden: "visible < mk_next_seq k" using assms by (auto simp: mem_inv_def intro: le_less_trans)
  show ?thesis
  proof (cases op)
    case (OpCommit b)
    then show ?thesis
      by (cases rule: commit_cases [of sha b k]) (simp_all add: visible_install_hidden [OF hidden])
  qed (use hidden assms in \<open>auto simp: mem_commit_protocol_def mem_prepare_def mem_commit_prepared_def
      mem_abort_prepared_def Let_def visible_install_hidden visible_mem_crash split: sum.splits option.splits\<close>)
qed

lemma mem_run_durable:
  assumes "mem_inv k" "mk_next_seq k \<noteq> - 1"
  shows "mk_durable_seq k \<le> mk_durable_seq (mem_run sha op k)"
proof -
  have "d \<le> n - 1" if "d < n" for d n :: u64
    using that by uint_arith
  then have "mk_durable_seq k \<le> mk_next_seq k - 1" "mk_durable_seq k \<le> mk_next_seq k"
    using assms(1) by (auto simp: mem_inv_def)
  then have sync: "mk_durable_seq k \<le> mk_durable_seq (mem_sync k')"
    if "mk_next_seq k' = mk_next_seq k \<or> mk_next_seq k' = mk_next_seq k + 1" for k'
    using that by (auto simp: mem_sync_def)
  then have sync': "mk_durable_seq k \<le> mk_durable_seq (sync_if_configured k')"
    if "mk_next_seq k' = mk_next_seq k \<or> mk_next_seq k' = mk_next_seq k + 1" "mk_durable_seq k' = mk_durable_seq k" for k'
    using that by (auto simp: sync_if_configured_def)
  show ?thesis
  proof (cases op)
    case (OpCommit b)
    then show ?thesis by (cases rule: commit_cases [of sha b k]) (simp_all add: sync')
  qed (auto simp: mem_commit_protocol_def mem_prepare_def mem_commit_prepared_def mem_abort_prepared_def
      mem_crash_def Let_def sync sync' split: sum.splits option.splits)
qed

lemma fold_run_visible:
  assumes "mem_inv k" "unat (mk_next_seq k) + length ops < 2 ^ 64" "visible \<le> mk_durable_seq k"
  shows "visible_value (fold (mem_run sha) ops k) visible key = visible_value k visible key"
  using assms
proof (induction ops arbitrary: k)
  case (Cons op ops)
  have "mk_next_seq k \<noteq> - 1"
    using Cons.prems(2) by (intro not_max_seq) simp
  then have "mem_inv (mem_run sha op k)" "visible \<le> mk_durable_seq (mem_run sha op k)"
    using Cons.prems mem_run_durable [of k sha op] by (auto simp: mem_inv_run)
  with Cons mem_run_next_seq [of k sha op] show ?case by (simp add: mem_run_visible)
qed simp

definition mem_start :: "bool \<Rightarrow> mem_kernel" where
  "mem_start s = mem_new\<lparr>mk_sync_each_commit := s\<rparr>"

lemma mem_start_facts: "mem_inv (mem_start s)" "mk_next_seq (mem_start s) = 1" "mk_sync_each_commit (mem_start s) = s"
  by (simp_all add: mem_start_def mem_inv_new) (simp add: mem_new_def)

text \<open>
  C36: snapshot reads are stable: a value read through a snapshot of the kernel never changes, whatever
  commits, prepares, decisions, barriers and crashes follow.
\<close>

theorem snapshot_reads_stable:
  assumes "length ops + length ops' < 2 ^ 64 - 1"
  shows "let k = fold (mem_run sha) ops (mem_start s); k' = fold (mem_run sha) ops' k
    in mem_get k' key (mem_snapshot k) = mem_get k key (mem_snapshot k)"
proof -
  define k where "k = fold (mem_run sha) ops (mem_start s)"
  have "mem_inv k" "unat (mk_next_seq k) \<le> 1 + length ops"
    using mem_run_inv_fold [of "mem_start s" ops sha] assms by (simp_all add: mem_start_facts k_def)
  then have "visible_value (fold (mem_run sha) ops' k) (mk_durable_seq k) key = visible_value k (mk_durable_seq k) key"
    using assms by (intro fold_run_visible) auto
  then show ?thesis by (simp add: k_def Let_def mem_get_def mem_snapshot_def visible_value_def)
qed

definition stable_ops :: "mem_op list" where
  "stable_ops = [OpCommit (sample_batch (replicate 32 9) [sample_put] (sample_status 1 PhInstalled))]"

theorem snapshot_reads_stable_witness:
  "let k = fold (mem_run (\<lambda>_. replicate 32 0)) stable_ops (mem_start True);
       k' = fold (mem_run (\<lambda>_. replicate 32 0)) [OpCrash, OpSync] k
   in mem_get k' [1, 9] (mem_snapshot k) = mem_get k [1, 9] (mem_snapshot k)"
  by (rule snapshot_reads_stable) (simp add: stable_ops_def)

section \<open>Refinement of an abstract store\<close>

text \<open>
  The abstract store has two maps: what a reader sees and what it would see after the next barrier. An
  accepted batch applies its mutations to the second map; a barrier copies the second map to the first;
  a crash copies the first to the second.
\<close>

datatype store_event = EvNone | EvApply "storage_mutation list" | EvSync | EvCrash

fun spec_step ::
  "bool \<Rightarrow> store_event \<Rightarrow> (bytes \<Rightarrow> bytes option) \<times> (bytes \<Rightarrow> bytes option) \<Rightarrow>
   (bytes \<Rightarrow> bytes option) \<times> (bytes \<Rightarrow> bytes option)" where
  "spec_step s EvNone (vis, pend) = (vis, pend)"
| "spec_step s (EvApply ms) (vis, pend) =
     (let p = fold apply_mutation ms pend in (if s then p else vis, p))"
| "spec_step s EvSync (vis, pend) = (pend, pend)"
| "spec_step s EvCrash (vis, pend) = (vis, vis)"

definition store_abs :: "mem_kernel \<Rightarrow> (bytes \<Rightarrow> bytes option) \<times> (bytes \<Rightarrow> bytes option)" where
  "store_abs k = (visible_value k (mk_durable_seq k), visible_value k (- 1))"

definition accepted :: "'a mem_result \<Rightarrow> storage_mutation list \<Rightarrow> store_event" where
  "accepted r ms = (case snd r of Inl _ \<Rightarrow> EvNone | Inr _ \<Rightarrow> EvApply ms)"

fun mem_event :: "(bytes \<Rightarrow> hash256) \<Rightarrow> mem_op \<Rightarrow> mem_kernel \<Rightarrow> store_event" where
  "mem_event sha (OpCommit b) k = accepted (mem_commit sha b k) (cb_mutations b)"
| "mem_event sha (OpCommitProtocol b) k = accepted (mem_commit_protocol b k) []"
| "mem_event sha (OpPrepare b) k = accepted (mem_prepare sha b k) []"
| "mem_event sha (OpCommitPrepared t ref) k =
     accepted (mem_commit_prepared t ref k)
       (case bt_get (mk_prepared k) (pt_txn_id t) of None \<Rightarrow> [] | Some (b, _) \<Rightarrow> cb_mutations b)"
| "mem_event sha (OpAbortPrepared t ref) k = accepted (mem_abort_prepared t ref k) []"
| "mem_event sha OpSync k = EvSync"
| "mem_event sha OpCrash k = EvCrash"

lemma find_cong_set: "(\<And>x. x \<in> set xs \<Longrightarrow> P x \<longleftrightarrow> Q x) \<Longrightarrow> find P xs = find Q xs"
  by (induction xs) auto

lemma visible_all:
  assumes "mem_inv k"
  shows "visible_value k (mk_next_seq k - 1) = visible_value k (- 1)"
proof
  fix key
  have "0 < mk_next_seq k" using assms by (auto simp: mem_inv_def intro: le_less_trans)
  then have "find (\<lambda>v. ver_seq v \<le> mk_next_seq k - 1) (rev vs) = find (\<lambda>v. ver_seq v \<le> - 1) (rev vs)"
    if "bt_get (mk_versions k) key = Some vs" for vs
    using that assms by (intro find_cong_set) (auto simp: mem_inv_def versions_inv_def word_less_iff_pred)
  then show "visible_value k (mk_next_seq k - 1) key = visible_value k (- 1) key"
    by (simp add: visible_value_def newest_visible_def split: option.splits)
qed


lemma visible_sync_fun [simp]:
  "visible_value (mem_sync k) = visible_value k" "visible_value (sync_if_configured k) = visible_value k"
  by (intro ext; simp)+

lemma durable_sync [simp]: "mk_durable_seq (mem_sync k) = mk_next_seq k - 1"
  by (simp add: mem_sync_def)

lemma store_abs_sync: "mem_inv k \<Longrightarrow> store_abs (mem_sync k) = (visible_value k (- 1), visible_value k (- 1))"
  using visible_all [of k] by (simp add: store_abs_def)

lemma store_abs_accept:
  assumes "mem_inv k'" "mk_sync_each_commit k' = mk_sync_each_commit k" "mk_durable_seq k' = mk_durable_seq k"
    and "visible_value k' (mk_durable_seq k) = visible_value k (mk_durable_seq k)"
    and "visible_value k' (- 1) = fold apply_mutation ms (visible_value k (- 1))"
  shows "store_abs (sync_if_configured k') = spec_step (mk_sync_each_commit k) (EvApply ms) (store_abs k)"
  using assms store_abs_sync [OF assms(1)]
  by (auto simp: sync_if_configured_def store_abs_def Let_def)

lemma store_abs_install:
  assumes "mem_inv k" "mk_next_seq k \<noteq> - 1"
  shows "store_abs (sync_if_configured (mem_install b (mk_next_seq k) (k\<lparr>mk_next_seq := mk_next_seq k + 1\<rparr>))) =
    spec_step (mk_sync_each_commit k) (EvApply (cb_mutations b)) (store_abs k)"
proof (rule store_abs_accept)
  have "mk_durable_seq k < mk_next_seq k" using assms by (simp add: mem_inv_def)
  then show "visible_value (mem_install b (mk_next_seq k) (k\<lparr>mk_next_seq := mk_next_seq k + 1\<rparr>)) (mk_durable_seq k) =
      visible_value k (mk_durable_seq k)"
    by (simp add: visible_install_hidden)
qed (use assms in \<open>simp_all add: mem_inv_install visible_mem_install\<close>)

lemma store_abs_cong:
  "mk_versions k = mk_versions k' \<Longrightarrow> mk_durable_seq k = mk_durable_seq k' \<Longrightarrow> store_abs k = store_abs k'"
  using visible_value_cong [of k k'] by (simp add: store_abs_def)

lemma store_abs_crash:
  assumes "mem_inv k"
  shows "store_abs (mem_crash k) = (visible_value k (mk_durable_seq k), visible_value k (mk_durable_seq k))"
proof -
  have seqs: "mk_durable_seq (mem_crash k) = mk_durable_seq k" "mk_next_seq (mem_crash k) - 1 = mk_durable_seq k"
    by (simp_all add: mem_crash_def)
  have "visible_value (mem_crash k) (mk_durable_seq k) = visible_value k (mk_durable_seq k)"
    using assms by (intro ext visible_mem_crash) simp_all
  with seqs visible_all [OF mem_inv_crash [OF assms]] show ?thesis by (simp add: store_abs_def)
qed

lemma store_abs_updates [simp]:
  "store_abs (k\<lparr>mk_prepared := p\<rparr>) = store_abs k" "store_abs (k\<lparr>mk_commits := c\<rparr>) = store_abs k"
  by (rule store_abs_cong; simp)+

lemma store_abs_decision:
  assumes "mem_inv k" "mk_next_seq k \<noteq> - 1"
  shows "store_abs (sync_if_configured (record_decision b ref a
      (mem_install b (mk_next_seq k) (k\<lparr>mk_next_seq := mk_next_seq k + 1\<rparr>)))) =
      spec_step (mk_sync_each_commit k) (EvApply (cb_mutations b)) (store_abs k)"
    and "store_abs (sync_if_configured (record_decision b ref a (k\<lparr>mk_next_seq := mk_next_seq k + 1\<rparr>))) =
      spec_step (mk_sync_each_commit k) (EvApply []) (store_abs k)"
proof -
  have "mk_durable_seq k < mk_next_seq k" using assms by (simp add: mem_inv_def)
  then show "store_abs (sync_if_configured (record_decision b ref a
      (mem_install b (mk_next_seq k) (k\<lparr>mk_next_seq := mk_next_seq k + 1\<rparr>)))) =
      spec_step (mk_sync_each_commit k) (EvApply (cb_mutations b)) (store_abs k)"
    by (intro store_abs_accept)
      (use assms in \<open>auto simp: mem_inv_install mem_inv_record_decision visible_mem_install\<close>)
  show "store_abs (sync_if_configured (record_decision b ref a (k\<lparr>mk_next_seq := mk_next_seq k + 1\<rparr>))) =
      spec_step (mk_sync_each_commit k) (EvApply []) (store_abs k)"
    by (intro store_abs_accept) (use assms in \<open>simp_all add: mem_inv_bump mem_inv_record_decision\<close>)
qed

lemma spec_step_none [simp]: "spec_step s EvNone a = a"
  by (cases a) simp

lemma mem_run_refines:
  assumes "mem_inv k" "mk_next_seq k \<noteq> - 1"
  shows "store_abs (mem_run sha op k) = spec_step (mk_sync_each_commit k) (mem_event sha op k) (store_abs k)"
proof (cases op)
  case (OpCommit b)
  then show ?thesis
    using store_abs_install [OF assms, of b]
    by (cases rule: commit_cases [of sha b k]) (simp_all add: accepted_def)
next
  case (OpCommitProtocol b)
  with store_abs_install [OF assms, of "fake_batch (map PutRecord (po_writes b))"] show ?thesis
    by (auto simp: mem_commit_protocol_def accepted_def Let_def fake_batch_def split: sum.splits)
next
  case (OpPrepare b)
  have "store_abs (sync_if_configured (k\<lparr>mk_prepared := bt_insert (cb_txn_id b) (b, False) (mk_prepared k)\<rparr>)) =
      spec_step (mk_sync_each_commit k) (EvApply []) (store_abs k)"
    by (rule store_abs_accept) (use assms in \<open>simp_all add: mem_inv_prepared\<close>)
  with OpPrepare show ?thesis
    by (auto simp: mem_prepare_def accepted_def Let_def split: sum.splits)
next
  case (OpCommitPrepared t ref)
  let ?k = "k\<lparr>mk_prepared := bt_remove (pt_txn_id t) (mk_prepared k)\<rparr>"
  have "mem_inv ?k" using assms by (simp add: mem_inv_prepared)
  from store_abs_decision(1) [OF this] assms(2) OpCommitPrepared show ?thesis
    by (auto simp: mem_commit_prepared_def accepted_def Let_def split: option.splits)
next
  case (OpAbortPrepared t ref)
  let ?k = "k\<lparr>mk_prepared := bt_remove (pt_txn_id t) (mk_prepared k)\<rparr>"
  have "mem_inv ?k" using assms by (simp add: mem_inv_prepared)
  from store_abs_decision(2) [OF this] assms(2) OpAbortPrepared show ?thesis
    by (auto simp: mem_abort_prepared_def accepted_def Let_def split: option.splits)
next
  case OpSync
  with store_abs_sync [OF assms(1)] show ?thesis by (simp add: store_abs_def)
next
  case OpCrash
  with store_abs_crash [OF assms(1)] show ?thesis by (simp add: store_abs_def)
qed

text \<open>
  C35: the kernel refines the abstract store: from any reachable kernel, in either durability mode, every
  operation (commits, protocol commits, prepares, decisions, barriers, crashes; accepted or refused)
  changes what readers see, and what they would see after a barrier, exactly as the abstract store does.
\<close>

theorem kernel_refines_store:
  assumes "length ops < 2 ^ 64 - 2"
  shows "let k = fold (mem_run sha) ops (mem_start s)
    in store_abs (mem_run sha op k) = spec_step s (mem_event sha op k) (store_abs k) \<and>
       (\<lambda>key. mem_get k key (mem_snapshot k)) = fst (store_abs k)"
proof -
  define k where "k = fold (mem_run sha) ops (mem_start s)"
  have k: "mem_inv k" "unat (mk_next_seq k) \<le> 1 + length ops"
    using mem_run_inv_fold [of "mem_start s" ops sha] assms by (simp_all add: mem_start_facts k_def)
  moreover have "mk_sync_each_commit (fold (mem_run sha) ops k0) = mk_sync_each_commit k0" for k0
    by (induction ops arbitrary: k0) (simp_all add: mem_run_sync_flag)
  then have "mk_sync_each_commit k = s" by (simp add: k_def mem_start_facts)
  moreover have "mk_next_seq k \<noteq> - 1"
    using k(2) assms by (intro not_max_seq [of _ 0]) simp
  ultimately have "store_abs (mem_run sha op k) = spec_step s (mem_event sha op k) (store_abs k)"
    using mem_run_refines by blast
  moreover have "(\<lambda>key. mem_get k key (mem_snapshot k)) = fst (store_abs k)"
    by (rule ext) (simp add: mem_get_def mem_snapshot_def store_abs_def visible_value_def)
  ultimately show ?thesis by (simp add: k_def Let_def)
qed

theorem kernel_refines_store_witness:
  "let k = fold (mem_run (\<lambda>_. replicate 32 0)) stable_ops (mem_start True)
   in store_abs (mem_run (\<lambda>_. replicate 32 0) OpCrash k) =
        spec_step True (mem_event (\<lambda>_. replicate 32 0) OpCrash k) (store_abs k) \<and>
      (\<lambda>key. mem_get k key (mem_snapshot k)) = fst (store_abs k)"
  by (rule kernel_refines_store) (simp add: stable_ops_def)

section \<open>Decisions\<close>

lemma decision_phase:
  "st_phase (decision_status b ref True) = PhAborted"
  "st_phase (decision_status b ref False) \<in> {PhInstalled, PhTerminal}"
  by (simp_all add: decision_status_def Let_def split: option.splits)

lemma statuses_sync_if [simp]:
  "map_option fst (bt_get (mk_statuses (sync_if_configured k)) txn) = map_option fst (bt_get (mk_statuses k) txn)"
  "bt_get (mk_prepared (sync_if_configured k)) txn = None \<longleftrightarrow> bt_get (mk_prepared k) txn = None"
  by (simp_all add: sync_if_configured_def mem_sync_def option.map_comp comp_def case_prod_beta)

text \<open>Every prepared batch is filed under its own transaction and carries transitions of no other.\<close>

definition own_transitions :: "compiled_batch \<Rightarrow> bool" where
  "own_transitions b \<longleftrightarrow> (\<forall>t. SetTxnStatus t \<in> set (cb_protocol_mutations b) \<longrightarrow> ts_txn_id t = cb_txn_id b)"

definition prepared_own :: "mem_kernel \<Rightarrow> bool" where
  "prepared_own k \<longleftrightarrow> bt_ok (mk_statuses k) \<and> bt_ok (mk_prepared k) \<and>
     (\<forall>txn b d. bt_get (mk_prepared k) txn = Some (b, d) \<longrightarrow> cb_txn_id b = txn \<and> own_transitions b)"

lemma prepared_ownD:
  "prepared_own k \<Longrightarrow> bt_get (mk_prepared k) txn = Some (b, d) \<Longrightarrow> cb_txn_id b = txn \<and> own_transitions b"
  unfolding prepared_own_def by blast

lemma checked_own: "batch_check sha b = Inr () \<Longrightarrow> own_transitions b"
  using verified_batch(4) [of sha b] by (auto simp: own_transitions_def batch_check_def split: if_splits sum.splits)

lemma prepared_own_sync_if [simp]: "prepared_own (sync_if_configured k) \<longleftrightarrow> prepared_own k"
  by (auto simp: prepared_own_def sync_if_configured_def mem_sync_def)

lemma prepared_own_install: "prepared_own k \<Longrightarrow> prepared_own (mem_install b seq (k\<lparr>mk_next_seq := n\<rparr>))"
  by (simp add: prepared_own_def mem_install_ok)

lemma prepared_own_decision [simp]: "prepared_own k \<Longrightarrow> prepared_own (record_decision b ref a k)"
  by (simp add: prepared_own_def record_decision_def)

lemma prepared_own_updates:
  "prepared_own k \<Longrightarrow> prepared_own (k\<lparr>mk_prepared := bt_remove txn (mk_prepared k)\<rparr>)"
  "prepared_own k \<Longrightarrow> cb_txn_id b = txn \<Longrightarrow> own_transitions b \<Longrightarrow>
     prepared_own (k\<lparr>mk_prepared := bt_insert txn (b, d) (mk_prepared k)\<rparr>)"
  "prepared_own k \<Longrightarrow> cb_txn_id b = txn \<Longrightarrow> own_transitions b \<Longrightarrow>
     prepared_own (k\<lparr>mk_prepared := bt_insert txn (b, d) (bt_remove txn (mk_prepared k))\<rparr>)"
  "prepared_own (k\<lparr>mk_next_seq := n\<rparr>) \<longleftrightarrow> prepared_own k" "prepared_own (k\<lparr>mk_commits := c\<rparr>) \<longleftrightarrow> prepared_own k"
  by (auto simp: prepared_own_def split: if_splits)

lemma prepared_own_crash: "prepared_own k \<Longrightarrow> prepared_own (mem_crash k)"
  by (auto simp: prepared_own_def mem_crash_def split: option.splits if_splits)

lemma prepared_own_run:
  assumes "prepared_own k"
  shows "prepared_own (mem_run sha op k)"
proof (cases op)
  case (OpCommit b)
  then show ?thesis using assms
    by (cases rule: commit_cases [of sha b k]) (simp_all add: prepared_own_updates prepared_own_install)
next
  case (OpPrepare b)
  then show ?thesis using assms checked_own [of sha b]
    by (auto simp: mem_prepare_def Let_def prepared_own_updates split: sum.splits)
next
  case (OpCommitPrepared tok ref)
  show ?thesis using prepared_ownD [OF assms] assms OpCommitPrepared prepared_own_install [OF prepared_own_updates(1) [OF assms]]
    by (auto simp: mem_commit_prepared_def Let_def prepared_own_updates split: option.splits)
next
  case (OpAbortPrepared tok ref)
  show ?thesis using prepared_ownD [OF assms] assms OpAbortPrepared
    by (auto simp: mem_abort_prepared_def Let_def prepared_own_updates split: option.splits)
next
  case OpSync
  then show ?thesis using assms by (auto simp: prepared_own_def mem_sync_def)
qed (use assms prepared_own_install in \<open>auto simp: mem_commit_protocol_def Let_def prepared_own_crash split: sum.splits\<close>)

lemma prepared_own_reachable: "prepared_own (fold (mem_run sha) ops (mem_start s))"
proof -
  have "prepared_own k \<Longrightarrow> prepared_own (fold (mem_run sha) ops k)" for k
    by (induction ops arbitrary: k) (simp_all add: prepared_own_run)
  moreover have "prepared_own (mem_start s)" by (simp add: prepared_own_def mem_start_def mem_new_def)
  ultimately show ?thesis by blast
qed

text \<open>A transaction is decided with status \<open>st\<close>: the status is recorded, and durable where every commit is.\<close>

definition decided :: "txn_id \<Rightarrow> status_record \<Rightarrow> mem_kernel \<Rightarrow> bool" where
  "decided txn st k \<longleftrightarrow>
     map_option fst (bt_get (mk_statuses k) txn) = Some st \<and> bt_get (mk_prepared k) txn = None \<and>
     (mk_sync_each_commit k \<longrightarrow> bt_get (mk_statuses k) txn = Some (st, True))"

lemma decided_sync_if:
  assumes "map_option fst (bt_get (mk_statuses k) txn) = Some st" "bt_get (mk_prepared k) txn = None"
  shows "decided txn st (sync_if_configured k)"
  using assms by (auto simp: decided_def sync_if_configured_def mem_sync_def)

lemma commit_prepared_decides:
  assumes "prepared_own k" "mem_commit_prepared tok ref k = (k', Inr r)"
  shows "\<exists>st. decided (pt_txn_id tok) st k' \<and> st_phase st \<in> {PhInstalled, PhTerminal}"
proof -
  obtain b d where b: "bt_get (mk_prepared k) (pt_txn_id tok) = Some (b, d)" and
    k': "k' = sync_if_configured (record_decision b ref False (mem_install b (mk_next_seq k)
      (k\<lparr>mk_prepared := bt_remove (pt_txn_id tok) (mk_prepared k), mk_next_seq := mk_next_seq k + 1\<rparr>)))"
    using assms(2) by (auto simp: mem_commit_prepared_def Let_def split: option.splits if_splits)
  have "cb_txn_id b = pt_txn_id tok" using prepared_ownD [OF assms(1) b] by simp
  then have "decided (pt_txn_id tok) (decision_status b ref False) k'"
    unfolding k' by (intro decided_sync_if) (simp_all add: record_decision_def)
  then show ?thesis using decision_phase(2) by blast
qed

lemma abort_prepared_decides:
  assumes "prepared_own k" "mem_abort_prepared tok ref k = (k', Inr r)"
  shows "\<exists>st. decided (pt_txn_id tok) st k' \<and> st_phase st = PhAborted"
proof -
  obtain b d where b: "bt_get (mk_prepared k) (pt_txn_id tok) = Some (b, d)" and
    k': "k' = sync_if_configured (record_decision b ref True
      (k\<lparr>mk_prepared := bt_remove (pt_txn_id tok) (mk_prepared k), mk_next_seq := mk_next_seq k + 1\<rparr>))"
    using assms(2) by (auto simp: mem_abort_prepared_def Let_def split: option.splits if_splits)
  have "cb_txn_id b = pt_txn_id tok" using prepared_ownD [OF assms(1) b] by simp
  then have "decided (pt_txn_id tok) (decision_status b ref True) k'"
    unfolding k' by (intro decided_sync_if) (simp_all add: record_decision_def)
  then show ?thesis using decision_phase(1) by blast
qed

definition decision_error :: "status_record \<Rightarrow> error_code" where
  "decision_error st = (if st_phase st = PhAborted then TxnAlreadyAborted else TxnAlreadyCommitted)"

lemma decided_refused:
  assumes "decided txn st k" "st_phase st \<in> {PhInstalled, PhTerminal, PhAborted}" "pt_txn_id tok = txn"
  shows "mem_commit_prepared tok ref k = (k, Inl (Fail (decision_error st)))"
    "mem_abort_prepared tok ref k = (k, Inl (Fail (decision_error st)))"
    and "cb_txn_id b = txn \<Longrightarrow>
      mem_commit sha b k = (k, Inl (case batch_check sha b of Inl x \<Rightarrow> x | Inr _ \<Rightarrow> Fail (decision_error st)))"
  using assms
  by (auto simp: decided_def mem_commit_prepared_def mem_abort_prepared_def mem_commit_def decided_error_def
      decision_error_def split: sum.splits)

fun prepares :: "txn_id \<Rightarrow> mem_op \<Rightarrow> bool" where
  "prepares txn (OpPrepare b) \<longleftrightarrow> cb_txn_id b = txn"
| "prepares txn _ \<longleftrightarrow> False"

lemma statuses_install:
  assumes "\<And>t. SetTxnStatus t \<in> set (cb_protocol_mutations b) \<Longrightarrow> ts_txn_id t \<noteq> txn"
  shows "bt_get (mk_statuses (mem_install b seq k)) txn = bt_get (mk_statuses k) txn"
proof -
  have "(\<And>t. SetTxnStatus t \<in> set pms \<Longrightarrow> ts_txn_id t \<noteq> txn) \<Longrightarrow>
      bt_get (mk_statuses (fold install_protocol pms k)) txn = bt_get (mk_statuses k) txn" for pms k
  proof (induction pms arbitrary: k)
    case (Cons pm pms)
    then have "bt_get (mk_statuses (install_protocol pm k)) txn = bt_get (mk_statuses k) txn"
      by (cases pm) (auto simp: Let_def)
    with Cons show ?case by simp
  qed simp
  from this [OF assms] show ?thesis by (simp add: mem_install_def)
qed

lemma decided_install:
  assumes "decided txn st k" "\<And>t. SetTxnStatus t \<in> set (cb_protocol_mutations b) \<Longrightarrow> ts_txn_id t \<noteq> txn"
  shows "decided txn st (sync_if_configured (mem_install b (mk_next_seq k) (k\<lparr>mk_next_seq := mk_next_seq k + 1\<rparr>)))"
  using assms(1) by (intro decided_sync_if) (simp_all add: statuses_install [OF assms(2)] decided_def)

lemma decided_other_prepared:
  assumes "prepared_own k" "decided txn st k" "pt_txn_id tok \<noteq> txn"
  shows "decided txn st (fst (mem_commit_prepared tok ref k))" "decided txn st (fst (mem_abort_prepared tok ref k))"
proof -
  let ?k = "k\<lparr>mk_prepared := bt_remove (pt_txn_id tok) (mk_prepared k)\<rparr>"
  have "decided txn st (fst (mem_commit_prepared tok ref k)) \<and> decided txn st (fst (mem_abort_prepared tok ref k))"
  proof (cases "bt_get (mk_prepared k) (pt_txn_id tok)")
    case (Some p)
    obtain b d where p: "p = (b, d)" by (cases p)
    then have b: "cb_txn_id b = pt_txn_id tok" "own_transitions b" using prepared_ownD [OF assms(1)] Some by simp_all
    then have "ts_txn_id t \<noteq> txn" if "SetTxnStatus t \<in> set (cb_protocol_mutations b)" for t
      using that assms(3) by (auto simp: own_transitions_def)
    then have "decided txn st (sync_if_configured (record_decision b ref False (mem_install b (mk_next_seq k) (?k\<lparr>mk_next_seq := mk_next_seq k + 1\<rparr>))))"
      using assms(2,3) b by (intro decided_sync_if) (simp_all add: record_decision_def statuses_install decided_def)
    moreover have "decided txn st (sync_if_configured (record_decision b ref True (?k\<lparr>mk_next_seq := mk_next_seq k + 1\<rparr>)))"
      using assms(2,3) b by (intro decided_sync_if) (simp_all add: record_decision_def decided_def)
    moreover have "decided txn st (k\<lparr>mk_prepared := bt_insert (pt_txn_id tok) (b, False) (bt_remove (pt_txn_id tok) (mk_prepared k))\<rparr>)"
      using assms(2,3) by (auto simp: decided_def)
    ultimately show ?thesis using Some p by (simp add: mem_commit_prepared_def mem_abort_prepared_def Let_def)
  qed (use assms(2) in \<open>simp add: mem_commit_prepared_def mem_abort_prepared_def\<close>)
  then show "decided txn st (fst (mem_commit_prepared tok ref k))" "decided txn st (fst (mem_abort_prepared tok ref k))" by blast+
qed

lemma decided_commit:
  assumes dec: "decided txn st k" and st: "st_phase st \<in> {PhInstalled, PhTerminal, PhAborted}"
  shows "decided txn st (fst (mem_commit sha b k))"
proof (cases "cb_txn_id b = txn")
  case True
  then show ?thesis using decided_refused(3) [OF dec st, of "\<lparr>pt_txn_id = txn, pt_lsn = 0, pt_digest = []\<rparr>" b sha] dec by simp
next
  case False
  show ?thesis
  proof (cases rule: commit_cases [of sha b k])
    case 2
    have "ts_txn_id t \<noteq> txn" if "SetTxnStatus t \<in> set (cb_protocol_mutations b)" for t
      using verified_batch(4) [OF 2(2) that] False by simp
    from decided_install [OF dec this] show ?thesis using 2(1) by (simp add: decided_def)
  qed (use dec in simp)
qed

lemma decided_run:
  assumes own: "prepared_own k" and dec: "decided txn st k" and st: "st_phase st \<in> {PhInstalled, PhTerminal, PhAborted}"
    and op: "\<not> prepares txn op" "mk_sync_each_commit k \<or> op \<noteq> OpCrash"
  shows "decided txn st (mem_run sha op k)"
proof (cases op)
  case (OpCommitProtocol b)
  have "decided txn st (sync_if_configured (mem_install (fake_batch (map PutRecord (po_writes b))) (mk_next_seq k) (k\<lparr>mk_next_seq := mk_next_seq k + 1\<rparr>)))"
    by (rule decided_install [OF dec]) (auto simp: fake_batch_def)
  then show ?thesis using dec OpCommitProtocol by (simp add: mem_commit_protocol_def Let_def split: sum.splits)
next
  case (OpPrepare b)
  have "decided txn st (sync_if_configured (k\<lparr>mk_prepared := bt_insert (cb_txn_id b) (b, False) (mk_prepared k)\<rparr>))"
    using dec op(1) OpPrepare by (intro decided_sync_if) (auto simp: decided_def)
  then show ?thesis using dec OpPrepare by (simp add: mem_prepare_def Let_def split: sum.splits)
next
  case (OpCommitPrepared tok ref)
  then show ?thesis using decided_other_prepared(1) [OF own dec] decided_refused(1) [OF dec st] dec by (cases "pt_txn_id tok = txn") simp_all
next
  case (OpAbortPrepared tok ref)
  then show ?thesis using decided_other_prepared(2) [OF own dec] decided_refused(2) [OF dec st] dec by (cases "pt_txn_id tok = txn") simp_all
next
  case OpSync
  then show ?thesis using dec by (auto simp: decided_def mem_sync_def)
next
  case OpCrash
  then have "bt_get (mk_statuses k) txn = Some (st, True)" "bt_get (mk_prepared k) txn = None" using dec op(2) by (simp_all add: decided_def)
  then show ?thesis using OpCrash own by (simp add: decided_def mem_crash_def prepared_own_def)
qed (use decided_commit [OF dec st] in simp)

lemma decided_runs:
  assumes "prepared_own k" "decided txn st k" "st_phase st \<in> {PhInstalled, PhTerminal, PhAborted}"
    "\<forall>op \<in> set ops. \<not> prepares txn op" "mk_sync_each_commit k \<or> OpCrash \<notin> set ops"
  shows "decided txn st (fold (mem_run sha) ops k)"
  using assms
proof (induction ops arbitrary: k)
  case (Cons op ops)
  have "decided txn st (mem_run sha op k)" using Cons.prems by (intro decided_run) auto
  with Cons show ?case by (auto simp: prepared_own_run mem_run_sync_flag)
qed simp

lemma sync_flag_runs: "mk_sync_each_commit (fold (mem_run sha) ops k) = mk_sync_each_commit k"
  by (induction ops arbitrary: k) (simp_all add: mem_run_sync_flag)

text \<open>
  C37: a decision is made once. From a reachable kernel \<open>k\<close>, let a commit or an abort of a prepared
  transaction be accepted, and let any operations follow that do not prepare the same transaction again,
  crashes among them only if every commit is synchronous. Then the recorded status is still the one of the
  decision, every further decision on the transaction is refused with the error for that decision
  (already committed, already aborted) whatever its token and reference, a direct commit of a batch of the
  transaction is refused with that error too, or with its own error when the batch does not verify, and
  the refused calls leave the kernel unchanged.
\<close>

theorem decision_made_once:
  assumes "k = fold (mem_run sha) ops (mem_start s)"
    and "mem_commit_prepared tok ref k = (k', Inr r) \<and> e = TxnAlreadyCommitted \<or>
      mem_abort_prepared tok ref k = (k', Inr u) \<and> e = TxnAlreadyAborted"
    and "k'' = fold (mem_run sha) ops' k'"
    and "\<forall>op \<in> set ops'. \<not> prepares (pt_txn_id tok) op" "s \<or> OpCrash \<notin> set ops'"
    and "pt_txn_id tok' = pt_txn_id tok" "cb_txn_id b = pt_txn_id tok"
  shows "mem_txn_status k'' (pt_txn_id tok) = mem_txn_status k' (pt_txn_id tok) \<and>
    mem_commit_prepared tok' ref' k'' = (k'', Inl (Fail e)) \<and>
    mem_abort_prepared tok' ref' k'' = (k'', Inl (Fail e)) \<and>
    mem_commit sha b k'' = (k'', Inl (case batch_check sha b of Inl x \<Rightarrow> x | Inr _ \<Rightarrow> Fail e))"
proof -
  have own: "prepared_own k" unfolding assms(1) by (rule prepared_own_reachable)
  have flag: "mk_sync_each_commit k = s" by (simp add: assms(1) sync_flag_runs mem_start_facts)
  obtain op where step: "k' = mem_run sha op k"
    using assms(2) that [of "OpCommitPrepared tok ref"] that [of "OpAbortPrepared tok ref"] by auto
  have own': "prepared_own k'" and flag': "mk_sync_each_commit k' = s"
    unfolding step using prepared_own_run [OF own] mem_run_sync_flag flag by simp_all
  obtain st where st: "decided (pt_txn_id tok) st k'" "st_phase st \<in> {PhInstalled, PhTerminal, PhAborted}" "decision_error st = e"
    using assms(2) commit_prepared_decides [OF own] abort_prepared_decides [OF own]
    by (fastforce simp: decision_error_def)
  have later: "decided (pt_txn_id tok) st k''"
    unfolding assms(3) using decided_runs [OF own' st(1,2)] assms(4,5) flag' by blast
  then have "mem_txn_status k'' (pt_txn_id tok) = mem_txn_status k' (pt_txn_id tok)"
    using st(1) unfolding decided_def mem_txn_status_def by metis
  then show ?thesis using decided_refused [OF later st(2) assms(6), unfolded st(3)] assms(7) by blast
qed

definition sample_token :: prepared_token where
  "sample_token = \<lparr>pt_txn_id = replicate 32 9, pt_lsn = 1, pt_digest = replicate 32 0\<rparr>"

definition sample_ref :: protocol_record_ref where
  "sample_ref = \<lparr>prr_record_kind = ''local_decision'', prr_record_version = 1, prr_record_key = [],
     prr_payload_hash = replicate 32 0\<rparr>"

definition plain_batch :: compiled_batch where
  "plain_batch = (sample_batch (replicate 32 9) [sample_put] (sample_status 1 PhInstalled))\<lparr>cb_protocol_mutations := []\<rparr>"

lemma sample_checks:
  "batch_check (\<lambda>_. replicate 32 0) plain_batch = Inr ()"
  "batch_check (\<lambda>_. replicate 32 0) (sample_batch txn [sample_put] (sample_status r PhInstalled)) = Inr ()"
proof -
  have empty: "fset_ok to_canon []" for to_canon :: "'a \<Rightarrow> canon"
    by (simp add: fset_ok_def fset_canon_def c_set_def)
  show "batch_check (\<lambda>_. replicate 32 0) (sample_batch txn [sample_put] (sample_status r PhInstalled)) = Inr ()"
    by (simp add: batch_check_def sample_batch_verify)
      (simp add: sample_batch_def sample_status_def batch_encodable_def status_encodable_def empty)
  show "batch_check (\<lambda>_. replicate 32 0) plain_batch = Inr ()"
    by (simp add: batch_check_def batch_verify_def plain_batch_def sample_batch_def batch_encodable_def empty
        compute_digest_def domain_hash_def sample_put_def logical_key_namespace_def kr_namespace_def kr_take_def
        namespace_from_byte_def is_user_writable_def)
qed

definition prepared_kernel :: mem_kernel where
  "prepared_kernel = fst (mem_prepare (\<lambda>_. replicate 32 0) plain_batch (mem_start True))"

lemma prepared_kernel_facts:
  "mem_inv prepared_kernel" "mk_prepared prepared_kernel = [(replicate 32 9, plain_batch, True)]"
  "mk_statuses prepared_kernel = []" "mk_sync_each_commit prepared_kernel"
proof -
  show "mem_inv prepared_kernel"
    using mem_inv_run [of "mem_start True" "\<lambda>_. replicate 32 0" "OpPrepare plain_batch"]
    by (simp add: prepared_kernel_def mem_start_facts)
  have [simp]: "cb_txn_id plain_batch = replicate 32 9" "cb_protocol_mutations plain_batch = []"
    by (simp_all add: plain_batch_def sample_batch_def)
  show "mk_prepared prepared_kernel = [(replicate 32 9, plain_batch, True)]" "mk_statuses prepared_kernel = []"
    "mk_sync_each_commit prepared_kernel"
    by (simp_all add: prepared_kernel_def mem_prepare_def sample_checks mem_start_def mem_new_def
        sync_if_configured_def mem_sync_def bt_map_def Let_def)
qed

lemma prepared_kernel_commits:
  "\<exists>k'. mem_commit_prepared sample_token sample_ref prepared_kernel = (k', Inr (unsafe_result (Some (replicate 32 9)) (mk_next_seq prepared_kernel)))"
  by (simp add: mem_commit_prepared_def prepared_kernel_facts sample_token_def bt_get_def plain_batch_def
      sample_batch_def Let_def)

theorem decision_made_once_witness:
  "\<exists>k' k''. fst (mem_commit_prepared sample_token sample_ref prepared_kernel) = k' \<and>
     k'' = fold (mem_run (\<lambda>_. replicate 32 0)) [OpCrash, OpAbortPrepared sample_token sample_ref] k' \<and>
     mem_txn_status k'' (replicate 32 9) = mem_txn_status k' (replicate 32 9) \<and>
     mem_abort_prepared sample_token sample_ref k'' = (k'', Inl (Fail TxnAlreadyCommitted))"
proof -
  obtain k' where k': "mem_commit_prepared sample_token sample_ref prepared_kernel =
      (k', Inr (unsafe_result (Some (replicate 32 9)) (mk_next_seq prepared_kernel)))"
    using prepared_kernel_commits by blast
  have b: "cb_txn_id plain_batch = pt_txn_id sample_token"
    by (simp add: plain_batch_def sample_batch_def sample_token_def)
  have k: "prepared_kernel = fold (mem_run (\<lambda>_. replicate 32 0)) [OpPrepare plain_batch] (mem_start True)"
    by (simp add: prepared_kernel_def)
  have t: "pt_txn_id sample_token = replicate 32 9" by (simp add: sample_token_def)
  let ?ops = "[OpCrash, OpAbortPrepared sample_token sample_ref]"
  have "mem_txn_status (fold (mem_run (\<lambda>_. replicate 32 0)) ?ops k') (pt_txn_id sample_token) = mem_txn_status k' (pt_txn_id sample_token) \<and>
    mem_abort_prepared sample_token sample_ref (fold (mem_run (\<lambda>_. replicate 32 0)) ?ops k') =
      (fold (mem_run (\<lambda>_. replicate 32 0)) ?ops k', Inl (Fail TxnAlreadyCommitted))"
    using decision_made_once [OF k disjI1 [OF conjI [OF k' refl]] refl, of ?ops sample_token plain_batch sample_ref] b by simp
  then show ?thesis using k' t by auto
qed

text \<open>
  Two gaps of the simulated durability. A decision with a wrong digest is refused, but it puts the
  prepared batch back as not durable, so a crash then forgets a prepared transaction that had crossed the
  barrier. A protocol record that is overwritten without a barrier loses its durable revision in a crash.
\<close>

lemma mismatch_loses_prepared:
  "mk_prepared (mem_crash prepared_kernel) = mk_prepared prepared_kernel \<and>
   snd (mem_abort_prepared (sample_token\<lparr>pt_digest := replicate 32 1\<rparr>) sample_ref prepared_kernel) = Inl (Fail IdentityMismatch) \<and>
   mk_prepared (mem_crash (fst (mem_abort_prepared (sample_token\<lparr>pt_digest := replicate 32 1\<rparr>) sample_ref prepared_kernel))) = []"
  by (simp add: mem_abort_prepared_def mem_crash_def prepared_kernel_facts sample_token_def bt_get_def plain_batch_def
      sample_batch_def Let_def bt_retain_def bt_remove_def)

definition sample_write :: "expected_revision \<Rightarrow> protocol_only_batch" where
  "sample_write e =
     \<lparr>po_internal_record_id = \<lparr>pk_record_kind = ''outbox'', pk_scope_key = [], pk_record_id = []\<rparr>,
      po_authorizing_evidence = [],
      po_writes = [\<lparr>rw_key = \<lparr>pk_record_kind = ''outbox'', pk_scope_key = [], pk_record_id = []\<rparr>, rw_expected = e,
        rw_next = \<lparr>vr_record_kind = ''outbox'', vr_record_version = 1, vr_canonical_payload = []\<rparr>\<rparr>]\<rparr>"

lemma crash_forgets_durable_record:
  "let k1 = mem_sync (fst (mem_commit_protocol (sample_write ExpAbsent) (mem_start False)));
       k2 = fst (mem_commit_protocol (sample_write (ExpExact 1)) k1)
   in mk_records (mem_crash k1) = mk_records k1 \<and> mk_records k1 \<noteq> [] \<and> mk_records (mem_crash k2) = []"
  by (simp add: Let_def mem_commit_protocol_def sample_write_def mem_start_def mem_new_def mem_sync_def
      mem_crash_def sync_if_configured_def mem_install_def fake_batch_def validate_record_def bt_get_def
      bt_map_def bt_retain_def)

text \<open>
  A decided transaction can be prepared again: the direct commit of the batch is refused, but a prepare
  followed by an abort turns the recorded status of an installed transaction into an aborted one.
\<close>

definition installed_kernel :: mem_kernel where
  "installed_kernel =
     \<lparr>mk_versions = [([1, 9], [\<lparr>ver_seq = 1, ver_value = Some [42], ver_durable = True\<rparr>])], mk_records = [],
      mk_statuses = [(replicate 32 9, sample_status 1 PhInstalled, True)], mk_prepared = [], mk_next_seq = 2,
      mk_durable_seq = 1, mk_sync_each_commit = True, mk_commits = 1\<rparr>"

lemma decided_status_overwritten:
  "let sha = (\<lambda>_. replicate 32 0);
       k1 = fst (mem_commit sha (sample_batch (replicate 32 9) [sample_put] (sample_status 1 PhInstalled)) (mem_start True));
       k2 = fst (mem_prepare sha plain_batch k1);
       k3 = fst (mem_abort_prepared sample_token sample_ref k2)
   in map_option st_phase (mem_txn_status k1 (replicate 32 9)) = Some PhInstalled \<and>
      snd (mem_commit sha plain_batch k1) = Inl (Fail TxnAlreadyCommitted) \<and>
      map_option st_phase (mem_txn_status k3 (replicate 32 9)) = Some PhAborted \<and>
      mem_get k3 [1, 9] (mem_snapshot k3) = Some [42]"
proof -
  have proj: "cb_txn_id (sample_batch t ms st) = t" "cb_mutations (sample_batch t ms st) = ms"
    "cb_protocol_mutations (sample_batch t ms st) = [SetTxnStatus \<lparr>ts_txn_id = t, ts_request_key = sample_key,
       ts_request_hash = replicate 32 5, ts_expected_revision = ExpAbsent, ts_next = st\<rparr>]"
    "cb_txn_id plain_batch = replicate 32 9" "cb_protocol_mutations plain_batch = []"
    "cb_semantic_digest plain_batch = replicate 32 0" "mutation_key sample_put = [1, 9]"
    "mutation_value sample_put = Some [42]" "st_phase (sample_status r ph) = ph" "st_revision (sample_status r ph) = r"
    "st_terminal_outcome (sample_status r ph) = None" for t ms st r ph
    by (simp_all add: sample_batch_def plain_batch_def sample_put_def sample_status_def)
  have installed: "mem_commit (\<lambda>_. replicate 32 0)
      (sample_batch (replicate 32 9) [sample_put] (sample_status 1 PhInstalled)) (mem_start True) =
    (installed_kernel, Inr (unsafe_result (Some (replicate 32 9)) 1))"
    by (simp add: mem_commit_def sample_checks proj installed_kernel_def mem_start_def mem_new_def
        validate_status_def validate_transition_def status_validate_def Let_def mem_install_def
        install_mutation_def sync_if_configured_def mem_sync_def bt_map_def)
  have again: "fst (mem_prepare (\<lambda>_. replicate 32 0) plain_batch installed_kernel) =
      installed_kernel\<lparr>mk_prepared := [(replicate 32 9, plain_batch, True)]\<rparr>"
    by (simp add: mem_prepare_def sample_checks proj installed_kernel_def sync_if_configured_def mem_sync_def
        bt_map_def Let_def)
  have abort: "fst (mem_abort_prepared sample_token sample_ref
      (installed_kernel\<lparr>mk_prepared := [(replicate 32 9, plain_batch, True)]\<rparr>)) =
      installed_kernel\<lparr>mk_statuses := [(replicate 32 9, decision_status plain_batch sample_ref True, True)],
        mk_next_seq := 3, mk_durable_seq := 2\<rparr>"
    by (simp add: mem_abort_prepared_def sample_token_def proj installed_kernel_def sync_if_configured_def
        mem_sync_def record_decision_def bt_map_def bt_get_def bt_remove_def Let_def)
  show ?thesis
    unfolding Let_def installed fst_conv again abort
    by (simp add: installed_kernel_def mem_txn_status_def bt_get_def proj mem_commit_def sample_checks
        decision_phase mem_get_def mem_snapshot_def newest_visible_def)
qed

section \<open>Scans\<close>

definition scan_spec ::
  "mem_kernel \<Rightarrow> bytes \<Rightarrow> bytes option \<Rightarrow> u64 \<Rightarrow> (logical_key \<times> bytes) list" where
  "scan_spec k start stop visible =
     List.map_filter (\<lambda>key. map_option (Pair key) (visible_value k visible key))
       (filter (\<lambda>key. start \<le> key \<and> (case stop of None \<Rightarrow> True | Some e \<Rightarrow> key < e)) (map fst (mk_versions k)))"

lemma scan_loop_take:
  assumes "sorted_wrt (<) keys" "length out < max 1 limit"
  shows "scan_loop k stop visible limit out keys =
    out @ take (max 1 limit - length out) (List.map_filter (\<lambda>key. map_option (Pair key) (visible_value k visible key))
      (filter (\<lambda>key. case stop of None \<Rightarrow> True | Some e \<Rightarrow> key < e) keys))"
  using assms
proof (induction k stop visible limit out keys rule: scan_loop.induct)
  case (2 k stop visible limit out key keys)
  show ?case
  proof (cases "case stop of Some e \<Rightarrow> e \<le> key | None \<Rightarrow> False")
    case True
    then obtain e where e: "stop = Some e" "e \<le> key" by (cases stop) auto
    with 2(3) have "filter (\<lambda>key. key < e) (key # keys) = []"
      by (auto simp: filter_empty_conv dest: order.strict_trans)
    with True e show ?thesis by (simp add: map_filter_simps)
  next
    case False
    then have key: "(case stop of None \<Rightarrow> True | Some e \<Rightarrow> key < e)" by (cases stop) auto
    show ?thesis
    proof (cases "visible_value k visible key")
      case None
      with False key 2(1,3,4) show ?thesis
        by (simp add: map_filter_simps visible_value_def)
    next
      case (Some val)
      with False key 2(2,3,4) show ?thesis
        by (auto simp: map_filter_simps visible_value_def Let_def take_Cons' max_def)
    qed
  qed
qed (simp add: map_filter_simps)

lemma map_filter_keys:
  "map fst (List.map_filter (\<lambda>key. map_option (Pair key) (f key)) keys) = filter (\<lambda>key. f key \<noteq> None) keys"
  by (induction keys) (simp_all add: map_filter_simps split: option.splits)

lemma mem_scan_spec:
  assumes "mem_inv k"
  shows "mem_scan k start stop snap limit = take (max 1 limit) (scan_spec k start stop (sn_visible_seq snap))"
    and "sorted_wrt (<) (map fst (scan_spec k start stop visible))"
proof -
  have ok: "bt_ok (mk_versions k)" using assms by (simp add: mem_inv_def versions_inv_def)
  have keys: "map fst (bt_from start (mk_versions k)) = filter (\<lambda>key. start \<le> key) (map fst (mk_versions k))"
    using ok by (simp add: bt_from_filter filter_map comp_def case_prod_unfold)
  have "sorted_wrt (<) (filter (\<lambda>key. start \<le> key) (map fst (mk_versions k)))"
    using ok by (simp add: bt_ok_def sorted_wrt_filter)
  from scan_loop_take [OF this, of "[]" limit k stop "sn_visible_seq snap"]
  show "mem_scan k start stop snap limit = take (max 1 limit) (scan_spec k start stop (sn_visible_seq snap))"
    by (simp add: mem_scan_def keys scan_spec_def conj_commute)
  show "sorted_wrt (<) (map fst (scan_spec k start stop visible))"
    unfolding scan_spec_def map_filter_keys using ok by (simp add: bt_ok_def sorted_wrt_filter)
qed

text \<open>
  C38: a scan of the ordered versions is the reference scan: the live entries of the range at the snapshot,
  in ascending key order, cut at the limit (a limit of zero returns one entry).
\<close>

theorem mem_scan_is_reference:
  assumes "length ops < 2 ^ 64 - 1"
  shows "let k = fold (mem_run sha) ops (mem_start s)
    in mem_scan k start stop snap limit = take (max 1 limit) (scan_spec k start stop (sn_visible_seq snap)) \<and>
       sorted_wrt (<) (map fst (scan_spec k start stop (sn_visible_seq snap)))"
proof -
  have "mem_inv (fold (mem_run sha) ops (mem_start s))"
    using assms mem_run_inv_fold [of "mem_start s" ops sha] by (simp add: mem_start_facts)
  from mem_scan_spec [OF this] show ?thesis by (simp add: Let_def)
qed

theorem mem_scan_is_reference_witness:
  "let k = fold (mem_run (\<lambda>_. replicate 32 0)) stable_ops (mem_start True)
   in mem_scan k [1] None \<lparr>sn_epoch = 1, sn_visible_seq = 1\<rparr> 0 =
        take (max 1 0) (scan_spec k [1] None (sn_visible_seq \<lparr>sn_epoch = 1, sn_visible_seq = 1\<rparr>)) \<and>
      sorted_wrt (<) (map fst (scan_spec k [1] None (sn_visible_seq \<lparr>sn_epoch = 1, sn_visible_seq = 1\<rparr>)))"
  by (rule mem_scan_is_reference) (simp add: stable_ops_def)

end
