(* ===== verification/Spec2Isabelle.thy ===== *)
theory Spec2Isabelle
  imports FM1 FM2 FM3 RaftCluster Decimal KeyCodec WireRecords MemKernel
begin

text \<open>Root theory of the verification library.\<close>

end
